theory Spec2Isabelle
  imports Main "HOL-Library.Word"
begin

section \<open>The sync route of the Vercel-Blob to Open-Web-UI service\<close>

text \<open>
  This theory embeds \<^verbatim>\<open>src/app/api/sync-documents/route.ts\<close>: the handler
  \<^verbatim>\<open>POST\<close> that lists the blobs, uploads each of them (phase 1), waits for the
  downstream service to process them and adds the processed ones to a knowledge
  collection (phase 2), and answers with a summary.

  Names, URLs and messages are \<^typ>\<open>string\<close> (lists of 8-bit characters), with
  \<^verbatim>\<open>toLowerCase\<close> modelled on ASCII; the extracted content of a file, which the route
  trims, is the list of its UTF-16 code units. Numbers that are sizes and dates are
  \<^typ>\<open>int\<close>. Of the logger, the calls that serialise a caught value are modelled, since
  they can raise; the others write strings, numbers and flags to the console and are left
  out.
\<close>

subsection \<open>JavaScript values\<close>

text \<open>
  A value caught by \<^verbatim>\<open>catch\<close>: an instance of \<^verbatim>\<open>Error\<close> with its message
  (\<^verbatim>\<open>fetch\<close> and \<^verbatim>\<open>axios\<close> reject with such, and so does every \<^verbatim>\<open>throw new Error\<close> and
  every \<^verbatim>\<open>TypeError\<close> of the route); a value that is not an \<^verbatim>\<open>Error\<close> and that
  \<^verbatim>\<open>JSON.stringify\<close> accepts; or a value that \<^verbatim>\<open>JSON.stringify\<close> rejects, such as an
  object that refers to itself, with the message of the \<^verbatim>\<open>TypeError\<close> it raises then.
  The handlers read a caught value with
  \<^verbatim>\<open>error instanceof Error ? error.message : "Unknown error"\<close>.
\<close>

datatype js_exn = JsError string | JsThrown | JsCircular string

fun errorMessage :: "js_exn \<Rightarrow> string" where
  "errorMessage (JsError m) = m"
| "errorMessage JsThrown = ''Unknown error''"
| "errorMessage (JsCircular m) = ''Unknown error''"

text \<open>
  \<^verbatim>\<open>logger.error(message, error, context)\<close> writes
  \<^verbatim>\<open>JSON.stringify({ ..., error: serializeError(error) })\<close>. \<^verbatim>\<open>serializeError\<close> turns an
  \<^verbatim>\<open>Error\<close> into an object of strings and hands any other object on as it is, so the call
  raises exactly on a value that \<^verbatim>\<open>JSON.stringify\<close> rejects: the result is the message of
  the \<^verbatim>\<open>TypeError\<close> raised, or \<^term>\<open>None\<close> when the entry is written.
\<close>

fun logError :: "js_exn \<Rightarrow> string option" where
  "logError (JsError m) = None"
| "logError JsThrown = None"
| "logError (JsCircular m) = Some m"

text \<open>
  An optional string (\<^verbatim>\<open>string | undefined | null\<close>) is truthy when it is present and
  not empty; inside a template literal \<^verbatim>\<open>undefined\<close> prints as its name.
\<close>

fun truthy :: "string option \<Rightarrow> bool" where
  "truthy None = False"
| "truthy (Some s) = (s \<noteq> [])"

fun templ :: "string option \<Rightarrow> string" where
  "templ None = ''undefined''"
| "templ (Some s) = s"

text \<open>\<^verbatim>\<open>toLowerCase\<close> on ASCII: the letters A to Z (codes 65 to 90) move up by 32, which
  sets bit 5 of the code; every other character stays.\<close>

fun toLowerChar :: "char \<Rightarrow> char" where
  "toLowerChar (Char b0 b1 b2 b3 b4 b5 b6 b7) =
     (let n = (of_char (Char b0 b1 b2 b3 b4 b5 b6 b7) :: nat)
      in if 65 \<le> n \<and> n \<le> 90 then Char b0 b1 b2 b3 b4 True b6 b7
         else Char b0 b1 b2 b3 b4 b5 b6 b7)"

definition toLowerCase :: "string \<Rightarrow> string" where
  "toLowerCase s = map toLowerChar s"

text \<open>\<^verbatim>\<open>s.split(".")\<close>: the pieces between the dots, never an empty array.\<close>

fun split_dot :: "string \<Rightarrow> string list" where
  "split_dot [] = [[]]"
| "split_dot (c # cs) =
     (if c = CHR ''.'' then [] # split_dot cs
      else (case split_dot cs of
              [] \<Rightarrow> [[c]]
            | s # ss \<Rightarrow> (c # s) # ss))"

text \<open>\<^verbatim>\<open>a.pop()\<close>: the last element, \<^verbatim>\<open>undefined\<close> on an empty array.\<close>

fun pop :: "'a list \<Rightarrow> 'a option" where
  "pop [] = None"
| "pop [x] = Some x"
| "pop (x # y # ys) = pop (y # ys)"

text \<open>
  A string that is trimmed is given by its UTF-16 code units, words of 16 bits.
  \<^verbatim>\<open>String.prototype.trim\<close> removes white space and line terminators from both ends:
  the code units U+0009 to U+000D, U+0020, U+00A0, U+1680, U+2000 to U+200A, U+2028,
  U+2029, U+202F, U+205F, U+3000 and U+FEFF.
\<close>

type_synonym code_units = "16 word list"

definition isSpace :: "16 word \<Rightarrow> bool" where
  "isSpace n =
     ((9 \<le> n \<and> n \<le> 13) \<or> n = 32 \<or> n = 160 \<or> n = 5760 \<or> (8192 \<le> n \<and> n \<le> 8202) \<or>
      n = 8232 \<or> n = 8233 \<or> n = 8239 \<or> n = 8287 \<or> n = 12288 \<or> n = 65279)"

definition trim :: "code_units \<Rightarrow> code_units" where
  "trim s = rev (dropWhile isSpace (rev (dropWhile isSpace s)))"

subsection \<open>Content classification\<close>

text \<open>
  \<^verbatim>\<open>const fileExtension = blob.pathname.split(".").pop()?.toLowerCase();\<close>
\<close>

definition fileExtension :: "string \<Rightarrow> string option" where
  "fileExtension pathname = map_option toLowerCase (pop (split_dot pathname))"

text \<open>How the body of the fetched response is read: \<^verbatim>\<open>response.text()\<close> or
  \<^verbatim>\<open>response.arrayBuffer()\<close>.\<close>

datatype transfer = TextTransfer | BinaryTransfer

text \<open>The \<^verbatim>\<open>switch (fileExtension)\<close> of the upload loop: the content type and the way
  the body is read. The default leaves \<^verbatim>\<open>contentType\<close> at its initial value.\<close>

definition classify :: "string option \<Rightarrow> string \<times> transfer" where
  "classify ext =
     (if ext = Some ''md'' \<or> ext = Some ''markdown'' then (''text/markdown'', TextTransfer)
      else if ext = Some ''txt'' then (''text/plain'', TextTransfer)
      else if ext = Some ''json'' then (''application/json'', TextTransfer)
      else if ext = Some ''html'' then (''text/html'', TextTransfer)
      else if ext = Some ''pdf'' then (''application/pdf'', BinaryTransfer)
      else if ext = Some ''doc'' \<or> ext = Some ''docx'' then
        (''application/vnd.openxmlformats-officedocument.wordprocessingml.document'',
         BinaryTransfer)
      else if ext = Some ''xls'' \<or> ext = Some ''xlsx'' then
        (''application/vnd.openxmlformats-officedocument.spreadsheetml.sheet'',
         BinaryTransfer)
      else if ext = Some ''ppt'' \<or> ext = Some ''pptx'' then
        (''application/vnd.openxmlformats-officedocument.presentationml.presentation'',
         BinaryTransfer)
      else if ext = Some ''jpg'' \<or> ext = Some ''jpeg'' then (''image/jpeg'', BinaryTransfer)
      else if ext = Some ''png'' then (''image/png'', BinaryTransfer)
      else if ext = Some ''gif'' then (''image/gif'', BinaryTransfer)
      else (''application/octet-stream'', BinaryTransfer))"

definition classifyPath :: "string \<Rightarrow> string \<times> transfer" where
  "classifyPath pathname = classify (fileExtension pathname)"

subsection \<open>The data of the route\<close>

text \<open>
  The interfaces \<^verbatim>\<open>BlobFile\<close>, \<^verbatim>\<open>UploadedFile\<close> and \<^verbatim>\<open>SyncResult\<close>, and the entries
  \<^verbatim>\<open>{ file, error }\<close> of \<^verbatim>\<open>uploadErrors\<close>. A field name that several interfaces
  share, or that HOL already uses (\<^verbatim>\<open>size\<close>, \<^verbatim>\<open>id\<close>, \<^verbatim>\<open>file\<close>), carries a suffix.
\<close>

record BlobFile =
  url :: string
  pathname :: string
  size_b :: int
  uploadedAt_b :: int

record UploadedFile =
  id_u :: string
  pathname_u :: string
  size_u :: int
  uploadedAt_u :: int

text \<open>\<^verbatim>\<open>collectionStatus?: string | null\<close>: \<^term>\<open>None\<close> is \<^verbatim>\<open>null\<close>.\<close>

record SyncResult =
  file_r :: string
  status :: string
  openWebUIId :: string
  collectionStatus :: "string option"
  size_r :: int
  uploadedAt :: int

record UploadError =
  file_e :: string
  error_e :: string

subsection \<open>The outside world\<close>

text \<open>
  What \<^verbatim>\<open>fetch(blob.url)\<close> resolves to: the flag \<^verbatim>\<open>ok\<close>, the status text, and what
  reading the body as text or as an array buffer gives (either may reject).
\<close>

record fetch_response =
  ok :: bool
  statusText :: string
  body_text :: "js_exn + string"
  body_arrayBuffer :: "js_exn + string"

datatype content = TextContent string | BinaryContent string

text \<open>The multipart request of \<^verbatim>\<open>axios.post(`${OPEN_WEB_UI_BASE_URL}/api/v1/files/`, formData, ...)\<close>.\<close>

record upload_request =
  post_url :: string
  post_authorization :: string
  post_filename :: string
  post_contentType :: string
  post_content :: content

text \<open>
  The body of the answer to the status request, as far as the route reads it:
  \<^verbatim>\<open>fileData.data?.status\<close> and \<^verbatim>\<open>fileData.data?.content\<close>. A content that is truthy
  and not a string has no \<^verbatim>\<open>trim\<close>; \<^term>\<open>NoData\<close> is a body that is \<^verbatim>\<open>null\<close> or
  \<^verbatim>\<open>undefined\<close>, on which reading \<^verbatim>\<open>.data\<close> raises.
\<close>

datatype js_field = Absent | Str code_units | Other

record file_record =
  fr_status :: "string option"
  fr_content :: js_field

datatype file_data = NoData | FileData "file_record option"

text \<open>The request of
  \<^verbatim>\<open>axios.post(`${OPEN_WEB_UI_BASE_URL}/api/v1/knowledge/${KNOWLEDGE_COLLECTION_ID}/file/add`, { file_id }, ...)\<close>.\<close>

record add_request =
  add_url :: string
  add_authorization :: string
  add_file_id :: string

text \<open>Every call the route makes to the outside, with the answer it got, in the order of
  the calls; \<^term>\<open>Sleep\<close> is a \<^verbatim>\<open>setTimeout\<close> that is awaited.\<close>

datatype event =
    ListCall "string option" "js_exn + BlobFile list"
  | FetchCall string "js_exn + fetch_response"
  | UploadCall upload_request "js_exn + string option"
  | StatusCall string string "js_exn + file_data"
  | AddCall add_request "js_exn + unit"
  | Sleep nat

text \<open>
  The outside world answers each call from the request and from everything that
  happened before (the events so far): the blob store (\<^verbatim>\<open>list\<close>), \<^verbatim>\<open>fetch\<close>, the three
  endpoints of Open Web UI, and the clock behind \<^verbatim>\<open>new Date().toISOString()\<close>.
  An \<^term>\<open>Inl\<close> is a rejected promise.
\<close>

record world =
  listBlobs :: "event list \<Rightarrow> string option \<Rightarrow> js_exn + BlobFile list"
  fetchBlob :: "event list \<Rightarrow> string \<Rightarrow> js_exn + fetch_response"
  postFile :: "event list \<Rightarrow> upload_request \<Rightarrow> js_exn + string option"
  getFile :: "event list \<Rightarrow> string \<Rightarrow> string \<Rightarrow> js_exn + file_data"
  addFile :: "event list \<Rightarrow> add_request \<Rightarrow> js_exn + unit"
  now :: "event list \<Rightarrow> string"

text \<open>\<^verbatim>\<open>process.env\<close> and the request header the route reads.\<close>

record env =
  CRON_SECRET :: "string option"
  BLOB_READ_WRITE_TOKEN :: "string option"
  OPEN_WEB_UI_BASE_URL :: "string option"
  OPEN_WEB_UI_API_KEY :: "string option"
  KNOWLEDGE_COLLECTION_ID :: "string option"

record request =
  authorization :: "string option"

definition bearer :: "env \<Rightarrow> string" where
  "bearer e = ''Bearer '' @ templ (OPEN_WEB_UI_API_KEY e)"

subsection \<open>Phase 1: the upload loop\<close>

definition readBody :: "transfer \<Rightarrow> fetch_response \<Rightarrow> js_exn + content" where
  "readBody tr response =
     (case tr of
        TextTransfer \<Rightarrow>
          (case body_text response of Inl ex \<Rightarrow> Inl ex | Inr s \<Rightarrow> Inr (TextContent s))
      | BinaryTransfer \<Rightarrow>
          (case body_arrayBuffer response of Inl ex \<Rightarrow> Inl ex | Inr s \<Rightarrow> Inr (BinaryContent s)))"

text \<open>
  The body of the \<^verbatim>\<open>try\<close> of one turn of \<^verbatim>\<open>for (const blob of blobs)\<close>, up to the
  file id: \<^term>\<open>Inl\<close> is what reaches the \<^verbatim>\<open>catch\<close>.
\<close>

definition uploadBlob ::
  "world \<Rightarrow> env \<Rightarrow> BlobFile \<Rightarrow> event list \<Rightarrow> (js_exn + string) \<times> event list" where
  "uploadBlob w e blob t =
     (let r = fetchBlob w t (url blob);
          t1 = t @ [FetchCall (url blob) r]
      in case r of
           Inl ex \<Rightarrow> (Inl ex, t1)
         | Inr response \<Rightarrow>
             if \<not> ok response then
               (Inl (JsError (''Failed to fetch blob content: '' @ statusText response)), t1)
             else
               (let (contentType, tr) = classify (fileExtension (pathname blob))
                in case readBody tr response of
                     Inl ex \<Rightarrow> (Inl ex, t1)
                   | Inr c \<Rightarrow>
                       (let req = \<lparr>post_url = templ (OPEN_WEB_UI_BASE_URL e) @ ''/api/v1/files/'',
                                   post_authorization = bearer e,
                                   post_filename = pathname blob,
                                   post_contentType = contentType,
                                   post_content = c\<rparr>;
                            u = postFile w t1 req;
                            t2 = t1 @ [UploadCall req u]
                        in case u of
                             Inl ex \<Rightarrow> (Inl ex, t2)
                           | Inr None \<Rightarrow>
                               (Inl (JsError ''Failed to get file ID from upload response''), t2)
                           | Inr (Some fileId) \<Rightarrow>
                               if fileId = [] then
                                 (Inl (JsError ''Failed to get file ID from upload response''), t2)
                               else (Inr fileId, t2))))"

record upload_state =
  uploadResults :: "SyncResult list"
  uploadErrors :: "UploadError list"
  uploadedFiles :: "UploadedFile list"
  events :: "event list"

text \<open>
  One turn of the loop: the pushes of the \<^verbatim>\<open>try\<close>, or the \<^verbatim>\<open>catch\<close>, which logs the
  caught value and then pushes the error. When the logger raises, nothing is pushed and
  the \<^verbatim>\<open>TypeError\<close> leaves the loop: the first component is its message.
\<close>

definition uploadStep ::
  "world \<Rightarrow> env \<Rightarrow> BlobFile \<Rightarrow> upload_state \<Rightarrow> string option \<times> upload_state" where
  "uploadStep w e blob st =
     (case uploadBlob w e blob (events st) of
        (Inr fileId, t') \<Rightarrow>
          (None,
           \<lparr>uploadResults = uploadResults st @
              [\<lparr>file_r = pathname blob, status = ''uploaded'', openWebUIId = fileId,
                collectionStatus = None, size_r = size_b blob, uploadedAt = uploadedAt_b blob\<rparr>],
            uploadErrors = uploadErrors st,
            uploadedFiles = uploadedFiles st @
              [\<lparr>id_u = fileId, pathname_u = pathname blob, size_u = size_b blob,
                uploadedAt_u = uploadedAt_b blob\<rparr>],
            events = t'\<rparr>)
      | (Inl ex, t') \<Rightarrow>
          (case logError ex of
             Some m \<Rightarrow> (Some m, st\<lparr>events := t'\<rparr>)
           | None \<Rightarrow>
               (None,
                \<lparr>uploadResults = uploadResults st,
                 uploadErrors = uploadErrors st @
                   [\<lparr>file_e = pathname blob, error_e = errorMessage ex\<rparr>],
                 uploadedFiles = uploadedFiles st,
                 events = t'\<rparr>)))"

text \<open>\<^verbatim>\<open>for (const blob of blobs)\<close>: the loop ends at the first turn that raises.\<close>

fun uploadAll ::
  "world \<Rightarrow> env \<Rightarrow> BlobFile list \<Rightarrow> upload_state \<Rightarrow> string option \<times> upload_state" where
  "uploadAll w e [] st = (None, st)"
| "uploadAll w e (blob # blobs) st =
     (case uploadStep w e blob st of
        (Some m, st') \<Rightarrow> (Some m, st')
      | (None, st') \<Rightarrow> uploadAll w e blobs st')"

subsection \<open>Phase 2: waiting for processing, adding to the collection\<close>

definition maxAttempts :: nat where
  "maxAttempts = 6"

definition statusUrl :: "env \<Rightarrow> UploadedFile \<Rightarrow> string" where
  "statusUrl e uploadedFile = templ (OPEN_WEB_UI_BASE_URL e) @ ''/api/v1/files/'' @ id_u uploadedFile"

text \<open>
  What the \<^verbatim>\<open>try\<close> of one attempt computes from the body of the answer:
  \<^verbatim>\<open>isProcessed && hasContent\<close>, or the \<^verbatim>\<open>TypeError\<close> of reading a body that is not
  there or of trimming a content that is not a string. \<^verbatim>\<open>hasContent\<close> is computed
  whatever \<^verbatim>\<open>isProcessed\<close> is.
\<close>

definition isReady :: "file_data \<Rightarrow> js_exn + bool" where
  "isReady fileData =
     (case fileData of
        NoData \<Rightarrow> Inl (JsError ''Cannot read properties of undefined'')
      | FileData None \<Rightarrow> Inr False
      | FileData (Some d) \<Rightarrow>
          (let isProcessed = (fr_status d = Some ''completed'')
           in case fr_content d of
                Absent \<Rightarrow> Inr False
              | Str c \<Rightarrow> Inr (isProcessed \<and> c \<noteq> [] \<and> length (trim c) > 0)
              | Other \<Rightarrow> Inl (JsError ''content.trim is not a function'')))"

text \<open>What one attempt makes of the answer to the status request; \<^term>\<open>Inl\<close> reaches
  \<^verbatim>\<open>catch (statusError)\<close>.\<close>

definition checkStatus :: "js_exn + file_data \<Rightarrow> js_exn + bool" where
  "checkStatus r = (case r of Inl ex \<Rightarrow> Inl ex | Inr fileData \<Rightarrow> isReady fileData)"

text \<open>
  \<^verbatim>\<open>while (!fileReady && attempts < maxAttempts)\<close>, from the values of \<^verbatim>\<open>fileReady\<close> and
  \<^verbatim>\<open>attempts\<close> at the head of the loop. The \<^verbatim>\<open>catch\<close> logs the caught value and leaves the
  loop by \<^verbatim>\<open>break\<close>; when the logger raises there, the \<^verbatim>\<open>TypeError\<close> leaves the loop
  instead: \<^term>\<open>Inl\<close> with its message. \<^term>\<open>Inr\<close> is \<^verbatim>\<open>fileReady\<close> after the loop.
\<close>

function pollLoop ::
  "world \<Rightarrow> env \<Rightarrow> UploadedFile \<Rightarrow> bool \<Rightarrow> nat \<Rightarrow> event list \<Rightarrow> (string + bool) \<times> event list" where
  "pollLoop w e uploadedFile fileReady attempts t =
     (if \<not> fileReady \<and> attempts < maxAttempts then
        (let attempts' = attempts + 1;
             r = getFile w t (statusUrl e uploadedFile) (bearer e);
             t1 = t @ [StatusCall (statusUrl e uploadedFile) (bearer e) r]
         in case checkStatus r of
              Inl statusError \<Rightarrow>
                (case logError statusError of
                   Some m \<Rightarrow> (Inl m, t1)
                 | None \<Rightarrow> (Inr fileReady, t1))
            | Inr ready \<Rightarrow>
                if ready then pollLoop w e uploadedFile True attempts' t1
                else if attempts' < maxAttempts then
                  pollLoop w e uploadedFile fileReady attempts' (t1 @ [Sleep 3000])
                else pollLoop w e uploadedFile fileReady attempts' t1)
      else (Inr fileReady, t))"
  by pat_completeness auto
termination
  by (relation "measure (\<lambda>(w, e, f, r, a, t). maxAttempts - a)") auto

text \<open>\<^verbatim>\<open>Array.prototype.findIndex\<close>: the first index whose element passes, or \<open>-1\<close>.\<close>

fun findIndex :: "('a \<Rightarrow> bool) \<Rightarrow> 'a list \<Rightarrow> int" where
  "findIndex P [] = - 1"
| "findIndex P (x # xs) =
     (if P x then 0 else (let i = findIndex P xs in if i < 0 then - 1 else i + 1))"

text \<open>
  \<^verbatim>\<open>if (resultIndex >= 0) { finalResults[resultIndex] = { ...finalResults[resultIndex], collectionStatus: s }; }\<close>
\<close>

definition setCollectionStatus :: "int \<Rightarrow> string \<Rightarrow> SyncResult list \<Rightarrow> SyncResult list" where
  "setCollectionStatus resultIndex s finalResults =
     (if resultIndex \<ge> 0 then
        finalResults[nat resultIndex :=
          (finalResults ! nat resultIndex)\<lparr>collectionStatus := Some s\<rparr>]
      else finalResults)"

definition addRequest :: "env \<Rightarrow> UploadedFile \<Rightarrow> add_request" where
  "addRequest e uploadedFile =
     \<lparr>add_url = templ (OPEN_WEB_UI_BASE_URL e) @ ''/api/v1/knowledge/'' @
                 templ (KNOWLEDGE_COLLECTION_ID e) @ ''/file/add'',
      add_authorization = bearer e,
      add_file_id = id_u uploadedFile\<rparr>"

text \<open>
  The body of the outer \<^verbatim>\<open>try\<close> of one turn of
  \<^verbatim>\<open>for (let i = 0; i < uploadedFiles.length; i++)\<close>: the new \<^verbatim>\<open>finalResults\<close>, or the
  message of the \<^verbatim>\<open>TypeError\<close> that the logger raised inside \<^verbatim>\<open>catch (statusError)\<close> or
  inside \<^verbatim>\<open>catch (collectionError)\<close>, before the status is written.
\<close>

definition processBody ::
  "world \<Rightarrow> env \<Rightarrow> UploadedFile \<Rightarrow> SyncResult list \<Rightarrow> event list \<Rightarrow>
     (string + SyncResult list) \<times> event list" where
  "processBody w e uploadedFile finalResults t =
     (case pollLoop w e uploadedFile False 0 t of
        (Inl m, t1) \<Rightarrow> (Inl m, t1)
      | (Inr fileReady, t1) \<Rightarrow>
          (let resultIndex = findIndex (\<lambda>r. openWebUIId r = id_u uploadedFile) finalResults
           in if \<not> fileReady then
                (Inr (setCollectionStatus resultIndex ''not-processed'' finalResults), t1)
              else
                (let a = addFile w t1 (addRequest e uploadedFile);
                     t2 = t1 @ [AddCall (addRequest e uploadedFile) a]
                 in case a of
                      Inr u \<Rightarrow> (Inr (setCollectionStatus resultIndex ''added'' finalResults), t2)
                    | Inl collectionError \<Rightarrow>
                        (case logError collectionError of
                           Some m \<Rightarrow> (Inl m, t2)
                         | None \<Rightarrow>
                             (Inr (setCollectionStatus resultIndex ''collection-failed''
                                     finalResults), t2)))))"

text \<open>
  One turn of the loop: the body, or the outer \<^verbatim>\<open>catch\<close>, which finds the result again
  and writes the collection status \<^verbatim>\<open>"error"\<close>. What the outer \<^verbatim>\<open>catch\<close> logs is the
  \<^verbatim>\<open>TypeError\<close> caught, an \<^verbatim>\<open>Error\<close>: that call of the logger does not raise.
\<close>

definition processUploadedFile ::
  "world \<Rightarrow> env \<Rightarrow> UploadedFile \<Rightarrow> SyncResult list \<times> event list \<Rightarrow> SyncResult list \<times> event list" where
  "processUploadedFile w e uploadedFile st =
     (case st of (finalResults, t) \<Rightarrow>
        (case processBody w e uploadedFile finalResults t of
           (Inr finalResults', t') \<Rightarrow> (finalResults', t')
         | (Inl m, t') \<Rightarrow>
             (let resultIndex = findIndex (\<lambda>r. openWebUIId r = id_u uploadedFile) finalResults
              in (setCollectionStatus resultIndex ''error'' finalResults, t'))))"

fun processAll ::
  "world \<Rightarrow> env \<Rightarrow> UploadedFile list \<Rightarrow> SyncResult list \<times> event list \<Rightarrow> SyncResult list \<times> event list" where
  "processAll w e [] st = st"
| "processAll w e (uploadedFile # rest) st =
     processAll w e rest (processUploadedFile w e uploadedFile st)"

text \<open>
  The \<^verbatim>\<open>if (KNOWLEDGE_COLLECTION_ID && uploadedFiles.length > 0)\<close> after phase 1, from
  \<^verbatim>\<open>finalResults = [...uploadResults]\<close>: the wait of 5000 ms and the loop, or
  \<^verbatim>\<open>collectionStatus: null\<close> on every result.
\<close>

definition phase2 :: "world \<Rightarrow> env \<Rightarrow> upload_state \<Rightarrow> SyncResult list \<times> event list" where
  "phase2 w e st =
     (if truthy (KNOWLEDGE_COLLECTION_ID e) \<and> length (uploadedFiles st) > 0 then
        processAll w e (uploadedFiles st) (uploadResults st, events st @ [Sleep 5000])
      else (map (\<lambda>result. result\<lparr>collectionStatus := None\<rparr>) (uploadResults st), events st))"

subsection \<open>The handler\<close>

record Summary =
  totalFiles :: nat
  successful :: nat
  failed :: nat
  addedToCollection :: nat
  timestamp :: string
  results :: "SyncResult list"
  errors :: "UploadError list"

text \<open>
  The JSON bodies \<^verbatim>\<open>POST\<close> answers with: \<^verbatim>\<open>{ error }\<close>,
  \<^verbatim>\<open>{ error, details, timestamp }\<close>, and the summary. A response is the HTTP status
  with the body. \<^term>\<open>Unhandled\<close> is no body of the route: \<^verbatim>\<open>POST\<close> itself raises the
  \<^verbatim>\<open>TypeError\<close> of this message, and the framework answers with status 500.
\<close>

datatype body =
    ErrorBody string
  | FailureBody string string string
  | SummaryBody Summary
  | Unhandled string

type_synonym response = "nat \<times> body"

text \<open>\<^verbatim>\<open>[!A && "A", !B && "B", !C && "C"].filter(Boolean)\<close>\<close>

definition missingEnvVars :: "env \<Rightarrow> string list" where
  "missingEnvVars e =
     List.map_filter (\<lambda>x. x)
       [if \<not> truthy (BLOB_READ_WRITE_TOKEN e) then Some ''BLOB_READ_WRITE_TOKEN'' else None,
        if \<not> truthy (OPEN_WEB_UI_BASE_URL e) then Some ''OPEN_WEB_UI_BASE_URL'' else None,
        if \<not> truthy (OPEN_WEB_UI_API_KEY e) then Some ''OPEN_WEB_UI_API_KEY'' else None]"

definition summarize ::
  "world \<Rightarrow> BlobFile list \<Rightarrow> UploadError list \<Rightarrow> SyncResult list \<times> event list \<Rightarrow> Summary" where
  "summarize w blobs uploadErrors' fin =
     (case fin of (finalResults, t) \<Rightarrow>
        \<lparr>totalFiles = length blobs,
         successful = length (filter (\<lambda>r. status r = ''uploaded'') finalResults),
         failed = length uploadErrors',
         addedToCollection = length (filter (\<lambda>r. collectionStatus r = Some ''added'') finalResults),
         timestamp = now w t,
         results = finalResults,
         errors = uploadErrors'\<rparr>)"

text \<open>
  \<^verbatim>\<open>POST\<close>: the response and the calls made. The outer \<^verbatim>\<open>catch\<close> is reached by a
  rejected \<^verbatim>\<open>list\<close> and by the \<^verbatim>\<open>TypeError\<close> that leaves the upload loop; it logs the
  caught value before it answers, so that a rejection of \<^verbatim>\<open>list\<close> that the logger cannot
  write makes \<^verbatim>\<open>POST\<close> raise.
\<close>

definition POST :: "world \<Rightarrow> env \<Rightarrow> request \<Rightarrow> response \<times> event list" where
  "POST w e req =
     (if \<not> truthy (CRON_SECRET e) \<or>
         authorization req \<noteq> Some (''Bearer '' @ templ (CRON_SECRET e)) then
        ((401, ErrorBody ''Unauthorized''), [])
      else if length (missingEnvVars e) > 0 then
        ((500, ErrorBody ''Missing required environment variables''), [])
      else
        (let l = listBlobs w [] (BLOB_READ_WRITE_TOKEN e);
             t0 = [ListCall (BLOB_READ_WRITE_TOKEN e) l]
         in case l of
              Inl ex \<Rightarrow>
                (case logError ex of
                   Some m \<Rightarrow> ((500, Unhandled m), t0)
                 | None \<Rightarrow>
                     ((500, FailureBody ''Sync operation failed'' (errorMessage ex) (now w t0)),
                      t0))
            | Inr blobs \<Rightarrow>
                (case uploadAll w e blobs
                        \<lparr>uploadResults = [], uploadErrors = [], uploadedFiles = [],
                         events = t0\<rparr> of
                   (Some m, st) \<Rightarrow>
                     ((500, FailureBody ''Sync operation failed'' m (now w (events st))),
                      events st)
                 | (None, st) \<Rightarrow>
                     (let fin = phase2 w e st
                      in ((200, SummaryBody (summarize w blobs (uploadErrors st) fin)),
                          snd fin)))))"

subsection \<open>Reading a run\<close>

text \<open>
  The definitions below are not part of the route: they name what the theorems say about
  its runs.

  The state the upload loop starts from (\<^verbatim>\<open>list\<close> has answered with \<open>blobs\<close>), and the
  state it ends in.
\<close>

definition startState :: "env \<Rightarrow> BlobFile list \<Rightarrow> upload_state" where
  "startState e blobs =
     \<lparr>uploadResults = [], uploadErrors = [], uploadedFiles = [],
      events = [ListCall (BLOB_READ_WRITE_TOKEN e) (Inr blobs)]\<rparr>"

text \<open>
  The turn of the upload loop that ends with its push, and the loop all of whose turns end
  so: they are what \<^term>\<open>uploadStep\<close> and \<^term>\<open>uploadAll\<close> compute when no call of the
  logger raises (lemmas \<open>uploadStep_None\<close> and \<open>uploadAll_None\<close>), which is the case in every
  run that returns a summary.
\<close>

definition recordStep :: "world \<Rightarrow> env \<Rightarrow> BlobFile \<Rightarrow> upload_state \<Rightarrow> upload_state" where
  "recordStep w e blob st =
     (case uploadBlob w e blob (events st) of
        (Inr fileId, t') \<Rightarrow>
          \<lparr>uploadResults = uploadResults st @
             [\<lparr>file_r = pathname blob, status = ''uploaded'', openWebUIId = fileId,
               collectionStatus = None, size_r = size_b blob, uploadedAt = uploadedAt_b blob\<rparr>],
           uploadErrors = uploadErrors st,
           uploadedFiles = uploadedFiles st @
             [\<lparr>id_u = fileId, pathname_u = pathname blob, size_u = size_b blob,
               uploadedAt_u = uploadedAt_b blob\<rparr>],
           events = t'\<rparr>
      | (Inl ex, t') \<Rightarrow>
          \<lparr>uploadResults = uploadResults st,
           uploadErrors = uploadErrors st @
             [\<lparr>file_e = pathname blob, error_e = errorMessage ex\<rparr>],
           uploadedFiles = uploadedFiles st,
           events = t'\<rparr>)"

fun recordAll :: "world \<Rightarrow> env \<Rightarrow> BlobFile list \<Rightarrow> upload_state \<Rightarrow> upload_state" where
  "recordAll w e [] st = st"
| "recordAll w e (blob # blobs) st = recordAll w e blobs (recordStep w e blob st)"

definition uploadStage :: "world \<Rightarrow> env \<Rightarrow> BlobFile list \<Rightarrow> upload_state" where
  "uploadStage w e blobs = recordAll w e blobs (startState e blobs)"

text \<open>The result pushed for an uploaded file, and a result without its collection status.\<close>

definition toResult :: "UploadedFile \<Rightarrow> SyncResult" where
  "toResult f = \<lparr>file_r = pathname_u f, status = ''uploaded'', openWebUIId = id_u f,
           collectionStatus = None, size_r = size_u f, uploadedAt = uploadedAt_u f\<rparr>"

definition eraseCS :: "SyncResult \<Rightarrow> SyncResult" where
  "eraseCS r = r\<lparr>collectionStatus := None\<rparr>"



text \<open>The kinds of events: the calls of phase 1 (with the listing), the events of phase 2.\<close>

fun isPhase1 :: "event \<Rightarrow> bool" where
  "isPhase1 (ListCall tok l) = True"
| "isPhase1 (FetchCall u r) = True"
| "isPhase1 (UploadCall rq a) = True"
| "isPhase1 _ = False"

fun isPhase2 :: "event \<Rightarrow> bool" where
  "isPhase2 (Sleep n) = True"
| "isPhase2 (StatusCall u a r) = True"
| "isPhase2 (AddCall rq a) = True"
| "isPhase2 _ = False"

fun isSleep :: "event \<Rightarrow> bool" where
  "isSleep (Sleep n) = True"
| "isSleep _ = False"

fun isPoll :: "event \<Rightarrow> bool" where
  "isPoll (StatusCall u a r) = True"
| "isPoll _ = False"

fun isAdd :: "event \<Rightarrow> bool" where
  "isAdd (AddCall rq a) = True"
| "isAdd _ = False"

text \<open>The status request and the request to add, for the file with id \<open>i\<close>, as events.\<close>

definition pollCall :: "env \<Rightarrow> string \<Rightarrow> js_exn + file_data \<Rightarrow> event" where
  "pollCall e i r =
     StatusCall (templ (OPEN_WEB_UI_BASE_URL e) @ ''/api/v1/files/'' @ i) (bearer e) r"

definition addCall :: "env \<Rightarrow> string \<Rightarrow> js_exn + unit \<Rightarrow> event" where
  "addCall e i a =
     AddCall \<lparr>add_url = templ (OPEN_WEB_UI_BASE_URL e) @ ''/api/v1/knowledge/'' @
                 templ (KNOWLEDGE_COLLECTION_ID e) @ ''/file/add'',
      add_authorization = bearer e,
      add_file_id = i\<rparr> a"

text \<open>The calls of a trace that are about the file with id \<open>i\<close>: the status requests to
  its URL and the requests to add it.\<close>

fun concerns :: "env \<Rightarrow> string \<Rightarrow> event \<Rightarrow> bool" where
  "concerns e i (StatusCall u a r) = (u = templ (OPEN_WEB_UI_BASE_URL e) @ ''/api/v1/files/'' @ i)"
| "concerns e i (AddCall rq a) = (add_file_id rq = i)"
| "concerns e i _ = False"

definition itemCalls :: "env \<Rightarrow> string \<Rightarrow> event list \<Rightarrow> event list" where
  "itemCalls e i t = filter (concerns e i) t"

text \<open>
  The status written after the request to add was answered with \<open>a\<close>, and the status
  written after a poll that failed with \<open>ex\<close>: \<open>error\<close> when the logger raises on the
  caught value.
\<close>

definition addOutcome :: "js_exn + unit \<Rightarrow> string" where
  "addOutcome a =
     (case a of
        Inr u \<Rightarrow> ''added''
      | Inl ex \<Rightarrow> (case logError ex of None \<Rightarrow> ''collection-failed'' | Some m \<Rightarrow> ''error''))"

definition pollOutcome :: "js_exn \<Rightarrow> string" where
  "pollOutcome ex = (case logError ex of None \<Rightarrow> ''not-processed'' | Some m \<Rightarrow> ''error'')"

text \<open>What the polling loop returns after a last attempt that made \<open>c\<close> of its answer.\<close>

definition pollResult :: "js_exn + bool \<Rightarrow> string + bool" where
  "pollResult c =
     (case c of
        Inr ready \<Rightarrow> Inr ready
      | Inl ex \<Rightarrow> (case logError ex of Some m \<Rightarrow> Inl m | None \<Rightarrow> Inr False))"

text \<open>
  The shape of the calls of one turn of the loop of phase 2, with the status it writes:
  the answers \<open>rs\<close> to the polls, at least one and at most \<^term>\<open>maxAttempts\<close>, all but the
  last saying not ready; after a last answer that says ready, one request to add and
  the status that its answer gives; after a last answer that says not ready, nothing and
  \<open>not-processed\<close>; after a last poll that failed, nothing and the status that the
  caught value gives.
\<close>

definition segment ::
  "env \<Rightarrow> string \<Rightarrow> (js_exn + file_data) list \<Rightarrow> event list \<Rightarrow> string \<Rightarrow> bool" where
  "segment e i rs rest s =
     (rs \<noteq> [] \<and> length rs \<le> maxAttempts \<and>
      (\<forall>r\<in>set (butlast rs). checkStatus r = Inr False) \<and>
      (case checkStatus (last rs) of
         Inr ready \<Rightarrow>
           if ready then \<exists>a. rest = [addCall e i a] \<and> s = addOutcome a
           else rest = [] \<and> s = ''not-processed''
       | Inl ex \<Rightarrow> rest = [] \<and> s = pollOutcome ex))"

definition settled :: "env \<Rightarrow> string \<Rightarrow> event list \<Rightarrow> string option \<Rightarrow> bool" where
  "settled e i calls cs =
     (\<exists>rs rest s. calls = map (pollCall e i) rs @ rest \<and> segment e i rs rest s \<and> cs = Some s)"

text \<open>The results that a response reports: those of its summary, none otherwise.\<close>

fun reported :: "response \<Rightarrow> SyncResult list" where
  "reported (code, SummaryBody r) = results r"
| "reported (code, other) = []"

subsection \<open>A run to try the theorems on\<close>

text \<open>
  Five blobs. The first cannot be fetched; the others are uploaded and get the ids
  \<open>id-\<close> followed by their names. Of these, the first is never processed, the status
  request of the second is rejected, the third is processed but cannot be added, and the
  fourth is processed at the second poll and added.
\<close>

definition demoBlobs :: "BlobFile list" where
  "demoBlobs =
     [\<lparr>url = ''blob/a.md'', pathname = ''a.md'', size_b = 10, uploadedAt_b = 1\<rparr>,
      \<lparr>url = ''blob/b.pdf'', pathname = ''b.pdf'', size_b = 20, uploadedAt_b = 2\<rparr>,
      \<lparr>url = ''blob/c.txt'', pathname = ''c.txt'', size_b = 30, uploadedAt_b = 3\<rparr>,
      \<lparr>url = ''blob/d.json'', pathname = ''d.json'', size_b = 40, uploadedAt_b = 4\<rparr>,
      \<lparr>url = ''blob/e.html'', pathname = ''e.html'', size_b = 50, uploadedAt_b = 5\<rparr>]"

definition demoEnv :: env where
  "demoEnv = \<lparr>CRON_SECRET = Some ''s3cret'', BLOB_READ_WRITE_TOKEN = Some ''tok'',
     OPEN_WEB_UI_BASE_URL = Some ''http://ui'', OPEN_WEB_UI_API_KEY = Some ''key'',
     KNOWLEDGE_COLLECTION_ID = Some ''kb''\<rparr>"

definition demoRequest :: request where
  "demoRequest = \<lparr>authorization = Some ''Bearer s3cret''\<rparr>"

fun isStatusOf :: "string \<Rightarrow> event \<Rightarrow> bool" where
  "isStatusOf u (StatusCall u' a r) = (u' = u)"
| "isStatusOf u _ = False"

definition pending :: file_data where
  "pending = FileData (Some \<lparr>fr_status = Some ''pending'', fr_content = Absent\<rparr>)"

text \<open>The content of a processed file: the code units of \<^verbatim>\<open>text\<close>.\<close>

definition completed :: file_data where
  "completed =
     FileData (Some \<lparr>fr_status = Some ''completed'', fr_content = Str [116, 101, 120, 116]\<rparr>)"

definition notFound :: fetch_response where
  "notFound = \<lparr>ok = False, statusText = ''Not Found'', body_text = Inr [], body_arrayBuffer = Inr []\<rparr>"

definition okResponse :: fetch_response where
  "okResponse = \<lparr>ok = True, statusText = ''OK'', body_text = Inr ''hello'',
     body_arrayBuffer = Inr ''bytes''\<rparr>"

definition demoWorld :: world where
  "demoWorld =
     \<lparr>listBlobs = (\<lambda>t tok. Inr demoBlobs),
      fetchBlob = (\<lambda>t u. if u = ''blob/a.md'' then Inr notFound else Inr okResponse),
      postFile = (\<lambda>t rq. Inr (Some (''id-'' @ post_filename rq))),
      getFile = (\<lambda>t u a.
        if u = ''http://ui/api/v1/files/id-b.pdf'' then Inr pending
        else if u = ''http://ui/api/v1/files/id-c.txt'' then Inl (JsError ''Network Error'')
        else if u = ''http://ui/api/v1/files/id-e.html'' \<and> filter (isStatusOf u) t = [] then Inr pending
        else Inr completed),
      addFile = (\<lambda>t rq.
        if add_file_id rq = ''id-d.json'' then Inl (JsError ''Request failed with status code 500'')
        else Inr ()),
      now = (\<lambda>t. ''2025-10-30T14:33:31.715Z'')\<rparr>"

definition demoUpload :: "string \<Rightarrow> string \<Rightarrow> content \<Rightarrow> event" where
  "demoUpload name ct c =
     UploadCall \<lparr>post_url = ''http://ui/api/v1/files/'', post_authorization = ''Bearer key'',
                 post_filename = name, post_contentType = ct, post_content = c\<rparr>
       (Inr (Some (''id-'' @ name)))"

definition demoResult :: "string \<Rightarrow> string option \<Rightarrow> int \<Rightarrow> int \<Rightarrow> SyncResult" where
  "demoResult name cs sz at =
     \<lparr>file_r = name, status = ''uploaded'', openWebUIId = ''id-'' @ name,
      collectionStatus = cs, size_r = sz, uploadedAt = at\<rparr>"

definition demoErrors :: "UploadError list" where
  "demoErrors = [\<lparr>file_e = ''a.md'', error_e = ''Failed to fetch blob content: Not Found''\<rparr>]"

definition demoSummary :: Summary where
  "demoSummary =
    \<lparr>totalFiles = 5, successful = 4, failed = 1, addedToCollection = 1,
     timestamp = ''2025-10-30T14:33:31.715Z'',
     results =
       [demoResult ''b.pdf'' (Some ''not-processed'') 20 2,
        demoResult ''c.txt'' (Some ''not-processed'') 30 3,
        demoResult ''d.json'' (Some ''collection-failed'') 40 4,
        demoResult ''e.html'' (Some ''added'') 50 5],
     errors = demoErrors\<rparr>"

definition demoPhase1 :: "event list" where
  "demoPhase1 =
     [ListCall (Some ''tok'') (Inr demoBlobs),
      FetchCall ''blob/a.md'' (Inr notFound),
      FetchCall ''blob/b.pdf'' (Inr okResponse),
      demoUpload ''b.pdf'' ''application/pdf'' (BinaryContent ''bytes''),
      FetchCall ''blob/c.txt'' (Inr okResponse),
      demoUpload ''c.txt'' ''text/plain'' (TextContent ''hello''),
      FetchCall ''blob/d.json'' (Inr okResponse),
      demoUpload ''d.json'' ''application/json'' (TextContent ''hello''),
      FetchCall ''blob/e.html'' (Inr okResponse),
      demoUpload ''e.html'' ''text/html'' (TextContent ''hello'')]"

definition demoBefore :: "event list" where
  "demoBefore =
     demoPhase1 @
     [Sleep 5000,
      pollCall demoEnv ''id-b.pdf'' (Inr pending), Sleep 3000,
      pollCall demoEnv ''id-b.pdf'' (Inr pending), Sleep 3000,
      pollCall demoEnv ''id-b.pdf'' (Inr pending), Sleep 3000,
      pollCall demoEnv ''id-b.pdf'' (Inr pending), Sleep 3000,
      pollCall demoEnv ''id-b.pdf'' (Inr pending), Sleep 3000,
      pollCall demoEnv ''id-b.pdf'' (Inr pending)]"

definition demoAfter :: "event list" where
  "demoAfter =
     [pollCall demoEnv ''id-d.json'' (Inr completed),
      addCall demoEnv ''id-d.json'' (Inl (JsError ''Request failed with status code 500'')),
      pollCall demoEnv ''id-e.html'' (Inr pending), Sleep 3000,
      pollCall demoEnv ''id-e.html'' (Inr completed),
      addCall demoEnv ''id-e.html'' (Inr ())]"

definition demoTrace :: "event list" where
  "demoTrace = demoBefore @ pollCall demoEnv ''id-c.txt'' (Inl (JsError ''Network Error'')) # demoAfter"

text \<open>The same world with no collection configured.\<close>

definition plainEnv :: env where
  "plainEnv = demoEnv\<lparr>KNOWLEDGE_COLLECTION_ID := None\<rparr>"

definition plainSummary :: Summary where
  "plainSummary =
    \<lparr>totalFiles = 5, successful = 4, failed = 1, addedToCollection = 0,
     timestamp = ''2025-10-30T14:33:31.715Z'',
     results =
       [demoResult ''b.pdf'' None 20 2, demoResult ''c.txt'' None 30 3,
        demoResult ''d.json'' None 40 4, demoResult ''e.html'' None 50 5],
     errors = demoErrors\<rparr>"

text \<open>The environment with the key of Open Web UI missing.\<close>

definition brokenEnv :: env where
  "brokenEnv = demoEnv\<lparr>OPEN_WEB_UI_API_KEY := None\<rparr>"

text \<open>The state of the upload loop at its end, in the run of the example.\<close>

definition demoUploaded :: "string \<Rightarrow> int \<Rightarrow> int \<Rightarrow> UploadedFile" where
  "demoUploaded name sz at =
     \<lparr>id_u = ''id-'' @ name, pathname_u = name, size_u = sz, uploadedAt_u = at\<rparr>"

definition demoStage :: upload_state where
  "demoStage =
     \<lparr>uploadResults = results plainSummary,
      uploadErrors = demoErrors,
      uploadedFiles =
        [demoUploaded ''b.pdf'' 20 2, demoUploaded ''c.txt'' 30 3,
         demoUploaded ''d.json'' 40 4, demoUploaded ''e.html'' 50 5],
      events = demoPhase1\<rparr>"

subsection \<open>Runs in which two uploads get the same id\<close>

text \<open>
  Two blobs, both fetched and uploaded, and both uploads answered with the id \<open>dup\<close>. The
  status requests are answered by \<open>poll\<close> and the requests to add by \<open>add\<close>, from the calls
  made so far.
\<close>

definition twinBlobs :: "BlobFile list" where
  "twinBlobs =
     [\<lparr>url = ''blob/q.txt'', pathname = ''q.txt'', size_b = 1, uploadedAt_b = 1\<rparr>,
      \<lparr>url = ''blob/r.txt'', pathname = ''r.txt'', size_b = 2, uploadedAt_b = 2\<rparr>]"

definition twinWorld ::
  "(event list \<Rightarrow> js_exn + file_data) \<Rightarrow> (event list \<Rightarrow> js_exn + unit) \<Rightarrow> world" where
  "twinWorld poll add =
     \<lparr>listBlobs = (\<lambda>t tok. Inr twinBlobs),
      fetchBlob = (\<lambda>t u. Inr okResponse),
      postFile = (\<lambda>t rq. Inr (Some ''dup'')),
      getFile = (\<lambda>t u a. poll t),
      addFile = (\<lambda>t rq. add t),
      now = (\<lambda>t. ''2025-10-30T14:33:31.715Z'')\<rparr>"

definition twinUpload :: "string \<Rightarrow> event" where
  "twinUpload name =
     UploadCall \<lparr>post_url = ''http://ui/api/v1/files/'', post_authorization = ''Bearer key'',
                 post_filename = name, post_contentType = ''text/plain'',
                 post_content = TextContent ''hello''\<rparr>
       (Inr (Some ''dup''))"

definition twinPhase1 :: "event list" where
  "twinPhase1 =
     [ListCall (Some ''tok'') (Inr twinBlobs),
      FetchCall ''blob/q.txt'' (Inr okResponse), twinUpload ''q.txt'',
      FetchCall ''blob/r.txt'' (Inr okResponse), twinUpload ''r.txt'']"

definition twinResult :: "string \<Rightarrow> string option \<Rightarrow> int \<Rightarrow> int \<Rightarrow> SyncResult" where
  "twinResult name cs sz at =
     \<lparr>file_r = name, status = ''uploaded'', openWebUIId = ''dup'',
      collectionStatus = cs, size_r = sz, uploadedAt = at\<rparr>"

text \<open>The summary of such a run: the first result with the collection status \<open>cs\<close>, the
  second with \<^verbatim>\<open>null\<close>.\<close>

definition twinSummary :: "string option \<Rightarrow> nat \<Rightarrow> Summary" where
  "twinSummary cs n =
    \<lparr>totalFiles = 2, successful = 2, failed = 0, addedToCollection = n,
     timestamp = ''2025-10-30T14:33:31.715Z'',
     results = [twinResult ''q.txt'' cs 1 1, twinResult ''r.txt'' None 2 2],
     errors = []\<rparr>"

text \<open>Neither file is ever processed.\<close>

definition stuckWorld :: world where
  "stuckWorld = twinWorld (\<lambda>t. Inr pending) (\<lambda>t. Inr ())"

definition sixPolls :: "event list" where
  "sixPolls =
     [pollCall demoEnv ''dup'' (Inr pending), Sleep 3000,
      pollCall demoEnv ''dup'' (Inr pending), Sleep 3000,
      pollCall demoEnv ''dup'' (Inr pending), Sleep 3000,
      pollCall demoEnv ''dup'' (Inr pending), Sleep 3000,
      pollCall demoEnv ''dup'' (Inr pending), Sleep 3000,
      pollCall demoEnv ''dup'' (Inr pending)]"

definition stuckTrace :: "event list" where
  "stuckTrace = twinPhase1 @ Sleep 5000 # sixPolls @ sixPolls"

text \<open>Every status request is rejected.\<close>

definition deafWorld :: world where
  "deafWorld = twinWorld (\<lambda>t. Inl (JsError ''Network Error'')) (\<lambda>t. Inr ())"

definition deafTrace :: "event list" where
  "deafTrace =
     twinPhase1 @
     [Sleep 5000,
      pollCall demoEnv ''dup'' (Inl (JsError ''Network Error'')),
      pollCall demoEnv ''dup'' (Inl (JsError ''Network Error''))]"

text \<open>Both files are processed; the first request to add is rejected, the second is
  accepted.\<close>

definition retryWorld :: world where
  "retryWorld =
     twinWorld (\<lambda>t. Inr completed)
       (\<lambda>t. if filter isAdd t = [] then Inl (JsError ''Request failed with status code 500'')
            else Inr ())"

definition retryTrace :: "event list" where
  "retryTrace =
     twinPhase1 @
     [Sleep 5000,
      pollCall demoEnv ''dup'' (Inr completed),
      addCall demoEnv ''dup'' (Inl (JsError ''Request failed with status code 500'')),
      pollCall demoEnv ''dup'' (Inr completed),
      addCall demoEnv ''dup'' (Inr ())]"

subsection \<open>A run in which the logger raises\<close>

text \<open>
  Three blobs, uploaded with the ids \<open>id-\<close> followed by their names. The status request of
  the first and the request to add the second are rejected with a value that refers to
  itself, on which the logger raises; the third is processed and added.
\<close>

definition loopBlobs :: "BlobFile list" where
  "loopBlobs =
     [\<lparr>url = ''blob/x.txt'', pathname = ''x.txt'', size_b = 1, uploadedAt_b = 1\<rparr>,
      \<lparr>url = ''blob/y.txt'', pathname = ''y.txt'', size_b = 2, uploadedAt_b = 2\<rparr>,
      \<lparr>url = ''blob/z.txt'', pathname = ''z.txt'', size_b = 3, uploadedAt_b = 3\<rparr>]"

definition circular :: js_exn where
  "circular = JsCircular ''Converting circular structure to JSON''"

definition loopWorld :: world where
  "loopWorld =
     \<lparr>listBlobs = (\<lambda>t tok. Inr loopBlobs),
      fetchBlob = (\<lambda>t u. Inr okResponse),
      postFile = (\<lambda>t rq. Inr (Some (''id-'' @ post_filename rq))),
      getFile = (\<lambda>t u a.
        if u = ''http://ui/api/v1/files/id-x.txt'' then Inl circular else Inr completed),
      addFile = (\<lambda>t rq. if add_file_id rq = ''id-y.txt'' then Inl circular else Inr ()),
      now = (\<lambda>t. ''2025-10-30T14:33:31.715Z'')\<rparr>"

definition loopSummary :: Summary where
  "loopSummary =
    \<lparr>totalFiles = 3, successful = 3, failed = 0, addedToCollection = 1,
     timestamp = ''2025-10-30T14:33:31.715Z'',
     results =
       [demoResult ''x.txt'' (Some ''error'') 1 1,
        demoResult ''y.txt'' (Some ''error'') 2 2,
        demoResult ''z.txt'' (Some ''added'') 3 3],
     errors = []\<rparr>"

definition loopTrace :: "event list" where
  "loopTrace =
     [ListCall (Some ''tok'') (Inr loopBlobs),
      FetchCall ''blob/x.txt'' (Inr okResponse),
      demoUpload ''x.txt'' ''text/plain'' (TextContent ''hello''),
      FetchCall ''blob/y.txt'' (Inr okResponse),
      demoUpload ''y.txt'' ''text/plain'' (TextContent ''hello''),
      FetchCall ''blob/z.txt'' (Inr okResponse),
      demoUpload ''z.txt'' ''text/plain'' (TextContent ''hello''),
      Sleep 5000,
      pollCall demoEnv ''id-x.txt'' (Inl circular),
      pollCall demoEnv ''id-y.txt'' (Inr completed),
      addCall demoEnv ''id-y.txt'' (Inl circular),
      pollCall demoEnv ''id-z.txt'' (Inr completed),
      addCall demoEnv ''id-z.txt'' (Inr ())]"

text \<open>The same blobs when the fetch of the second is rejected with such a value: the logger
  raises in the upload loop, and the run ends with the failure of the outer \<^verbatim>\<open>catch\<close>.\<close>

definition brokenFetchWorld :: world where
  "brokenFetchWorld =
     loopWorld\<lparr>fetchBlob := (\<lambda>t u. if u = ''blob/y.txt'' then Inl circular else Inr okResponse)\<rparr>"

definition brokenFetchTrace :: "event list" where
  "brokenFetchTrace =
     [ListCall (Some ''tok'') (Inr loopBlobs),
      FetchCall ''blob/x.txt'' (Inr okResponse),
      demoUpload ''x.txt'' ''text/plain'' (TextContent ''hello''),
      FetchCall ''blob/y.txt'' (Inl circular)]"

section \<open>Properties\<close>

subsection \<open>Classification\<close>

lemma split_dot_nonempty [simp]: "split_dot s \<noteq> []"
  by (induction s) (auto split: list.splits)

lemma pop_last: "xs \<noteq> [] \<Longrightarrow> pop xs = Some (last xs)"
  by (induction xs rule: pop.induct) simp_all

lemma split_dot_dotless: "CHR ''.'' \<notin> set s \<Longrightarrow> split_dot s = [s]"
  by (induction s) auto

lemma split_dot_append:
  "split_dot (stem @ CHR ''.'' # ext) = split_dot stem @ split_dot ext"
proof (induction stem)
  case Nil
  then show ?case by simp
next
  case (Cons c stem)
  obtain s ss where "split_dot stem = s # ss"
    by (cases "split_dot stem") simp_all
  with Cons show ?case by simp
qed

lemma last_split_dot_append:
  "last (split_dot (stem @ CHR ''.'' # ext)) = last (split_dot ext)"
  by (simp add: split_dot_append)

text \<open>The extension the route computes: the text after the last dot, in lower case; and
  for a name without a dot the whole name, in lower case.\<close>

lemma fileExtension_dotted:
  "CHR ''.'' \<notin> set ext \<Longrightarrow> fileExtension (stem @ CHR ''.'' # ext) = Some (toLowerCase ext)"
  by (simp add: fileExtension_def pop_last last_split_dot_append split_dot_dotless)

lemma fileExtension_dotless:
  "CHR ''.'' \<notin> set name \<Longrightarrow> fileExtension name = Some (toLowerCase name)"
  by (simp add: fileExtension_def split_dot_dotless)

text \<open>Outside the table the content type is \<^verbatim>\<open>application/octet-stream\<close>, read as bytes.\<close>

lemma classify_default:
  "ext \<notin> Some ` {''md'', ''markdown'', ''txt'', ''json'', ''html'', ''pdf'', ''doc'', ''docx'',
      ''xls'', ''xlsx'', ''ppt'', ''pptx'', ''jpg'', ''jpeg'', ''png'', ''gif''} \<Longrightarrow>
   classify ext = (''application/octet-stream'', BinaryTransfer)"
  by (simp add: classify_def image_iff)

lemma classify_text:
  "classify (Some ''md'') = (''text/markdown'', TextTransfer)"
  "classify (Some ''markdown'') = (''text/markdown'', TextTransfer)"
  "classify (Some ''txt'') = (''text/plain'', TextTransfer)"
  "classify (Some ''json'') = (''application/json'', TextTransfer)"
  "classify (Some ''html'') = (''text/html'', TextTransfer)"
  by (simp_all add: classify_def)

lemma classify_binary:
  "classify (Some ''pdf'') = (''application/pdf'', BinaryTransfer)"
  "classify (Some ''doc'') =
     (''application/vnd.openxmlformats-officedocument.wordprocessingml.document'', BinaryTransfer)"
  "classify (Some ''docx'') =
     (''application/vnd.openxmlformats-officedocument.wordprocessingml.document'', BinaryTransfer)"
  "classify (Some ''xls'') =
     (''application/vnd.openxmlformats-officedocument.spreadsheetml.sheet'', BinaryTransfer)"
  "classify (Some ''xlsx'') =
     (''application/vnd.openxmlformats-officedocument.spreadsheetml.sheet'', BinaryTransfer)"
  "classify (Some ''ppt'') =
     (''application/vnd.openxmlformats-officedocument.presentationml.presentation'', BinaryTransfer)"
  "classify (Some ''pptx'') =
     (''application/vnd.openxmlformats-officedocument.presentationml.presentation'', BinaryTransfer)"
  "classify (Some ''jpg'') = (''image/jpeg'', BinaryTransfer)"
  "classify (Some ''jpeg'') = (''image/jpeg'', BinaryTransfer)"
  "classify (Some ''png'') = (''image/png'', BinaryTransfer)"
  "classify (Some ''gif'') = (''image/gif'', BinaryTransfer)"
  by (simp_all add: classify_def)

lemma classifyPath_dotted:
  "CHR ''.'' \<notin> set ext \<Longrightarrow> classifyPath (stem @ CHR ''.'' # ext) = classify (Some (toLowerCase ext))"
  by (simp add: classifyPath_def fileExtension_dotted)

lemma classifyPath_dotless:
  "CHR ''.'' \<notin> set name \<Longrightarrow> classifyPath name = classify (Some (toLowerCase name))"
  by (simp add: classifyPath_def fileExtension_dotless)

subsection \<open>The upload loop\<close>

lemma recordStep_cases:
  obtains (uploaded) fileId t' where
      "uploadBlob w e blob (events st) = (Inr fileId, t')"
      "uploadResults (recordStep w e blob st) = uploadResults st @
         [\<lparr>file_r = pathname blob, status = ''uploaded'', openWebUIId = fileId,
           collectionStatus = None, size_r = size_b blob, uploadedAt = uploadedAt_b blob\<rparr>]"
      "uploadErrors (recordStep w e blob st) = uploadErrors st"
      "uploadedFiles (recordStep w e blob st) = uploadedFiles st @
         [\<lparr>id_u = fileId, pathname_u = pathname blob, size_u = size_b blob,
           uploadedAt_u = uploadedAt_b blob\<rparr>]"
      "events (recordStep w e blob st) = t'"
  | (failed) ex t' where
      "uploadBlob w e blob (events st) = (Inl ex, t')"
      "uploadResults (recordStep w e blob st) = uploadResults st"
      "uploadErrors (recordStep w e blob st) = uploadErrors st @
         [\<lparr>file_e = pathname blob, error_e = errorMessage ex\<rparr>]"
      "uploadedFiles (recordStep w e blob st) = uploadedFiles st"
      "events (recordStep w e blob st) = t'"
proof (cases "uploadBlob w e blob (events st)")
  case (Pair x t')
  show ?thesis
  proof (cases x)
    case (Inl ex)
    with Pair show ?thesis by (intro failed[of ex t']) (simp_all add: recordStep_def)
  next
    case (Inr fileId)
    with Pair show ?thesis by (intro uploaded[of fileId t']) (simp_all add: recordStep_def)
  qed
qed

lemma recordStep_count:
  "length (uploadResults (recordStep w e blob st)) + length (uploadErrors (recordStep w e blob st))
     = Suc (length (uploadResults st) + length (uploadErrors st))"
  by (cases rule: recordStep_cases[of w e blob st]) simp_all

lemma recordAll_count:
  "length (uploadResults (recordAll w e blobs st)) + length (uploadErrors (recordAll w e blobs st))
     = length (uploadResults st) + length (uploadErrors st) + length blobs"
  by (induction blobs arbitrary: st) (simp_all add: recordStep_count)

lemma recordStep_aligned:
  "uploadResults st = map toResult (uploadedFiles st) \<Longrightarrow>
   uploadResults (recordStep w e blob st) = map toResult (uploadedFiles (recordStep w e blob st))"
  by (cases rule: recordStep_cases[of w e blob st]) (simp_all add: toResult_def)

lemma recordAll_aligned:
  "uploadResults st = map toResult (uploadedFiles st) \<Longrightarrow>
   uploadResults (recordAll w e blobs st) = map toResult (uploadedFiles (recordAll w e blobs st))"
  by (induction blobs arbitrary: st) (simp_all add: recordStep_aligned)

lemma snoc_in_shuffles_single: "ys @ [a] \<in> shuffles [a] ys"
  by (induction ys) (simp_all add: Cons_in_shuffles_rightI)

lemma shuffles_snoc_left: "zs \<in> shuffles xs ys \<Longrightarrow> zs @ [a] \<in> shuffles (xs @ [a]) ys"
proof (induction xs ys arbitrary: zs rule: shuffles.induct)
  case (1 ys)
  then show ?case by (simp add: snoc_in_shuffles_single)
next
  case (2 xs)
  then show ?case by simp
next
  case (3 x xs y ys)
  then show ?case by (auto simp: Cons_in_shuffles_iff)
qed

lemma shuffles_snoc_right: "zs \<in> shuffles xs ys \<Longrightarrow> zs @ [a] \<in> shuffles xs (ys @ [a])"
  using shuffles_snoc_left[of zs ys xs a] by (simp add: shuffles_commutes)

lemma recordStep_shuffles:
  "zs \<in> shuffles (map file_r (uploadResults st)) (map file_e (uploadErrors st)) \<Longrightarrow>
   zs @ [pathname blob] \<in> shuffles (map file_r (uploadResults (recordStep w e blob st)))
                                  (map file_e (uploadErrors (recordStep w e blob st)))"
  by (cases rule: recordStep_cases[of w e blob st])
     (simp_all add: shuffles_snoc_left shuffles_snoc_right)

lemma recordAll_shuffles:
  "zs \<in> shuffles (map file_r (uploadResults st)) (map file_e (uploadErrors st)) \<Longrightarrow>
   zs @ map pathname blobs \<in> shuffles (map file_r (uploadResults (recordAll w e blobs st)))
                                  (map file_e (uploadErrors (recordAll w e blobs st)))"
proof (induction blobs arbitrary: st zs)
  case Nil
  then show ?case by simp
next
  case (Cons b bs)
  from Cons.IH[OF recordStep_shuffles[OF Cons.prems, of b w e]]
  show ?case by simp
qed

text \<open>The upload stage: the loop from its start state. Its calls are calls of phase 1, its
  results are the results of its uploaded files, and every blob has one result or one error.\<close>

lemma uploadBlob_events:
  "uploadBlob w e blob t = (x, t') \<Longrightarrow> \<exists>evs. t' = t @ evs \<and> (\<forall>ev\<in>set evs. isPhase1 ev)"
  by (auto simp: uploadBlob_def Let_def split: sum.splits if_splits prod.splits option.splits)

lemma recordStep_events:
  "\<exists>evs. events (recordStep w e blob st) = events st @ evs \<and> (\<forall>ev\<in>set evs. isPhase1 ev)"
  by (cases rule: recordStep_cases[of w e blob st]) (auto dest: uploadBlob_events)

lemma recordAll_events:
  "\<exists>evs. events (recordAll w e blobs st) = events st @ evs \<and> (\<forall>ev\<in>set evs. isPhase1 ev)"
proof (induction blobs arbitrary: st)
  case Nil
  then show ?case by simp
next
  case (Cons b bs)
  from recordStep_events[of w e b st] obtain evs1 where
    1: "events (recordStep w e b st) = events st @ evs1" "\<forall>ev\<in>set evs1. isPhase1 ev" by blast
  from Cons.IH[of "recordStep w e b st"] obtain evs2 where
    2: "events (recordAll w e bs (recordStep w e b st)) = events (recordStep w e b st) @ evs2"
       "\<forall>ev\<in>set evs2. isPhase1 ev" by blast
  from 1 2 show ?case by (intro exI[of _ "evs1 @ evs2"]) auto
qed

lemma uploadStage_events: "\<forall>ev\<in>set (events (uploadStage w e blobs)). isPhase1 ev"
  using recordAll_events[of w e blobs "startState e blobs"]
  by (auto simp: uploadStage_def startState_def)

lemma uploadStage_aligned:
  "uploadResults (uploadStage w e blobs) = map toResult (uploadedFiles (uploadStage w e blobs))"
  unfolding uploadStage_def by (rule recordAll_aligned) (simp add: startState_def)

lemma uploadStage_count:
  "length (uploadResults (uploadStage w e blobs)) + length (uploadErrors (uploadStage w e blobs))
     = length blobs"
  unfolding uploadStage_def by (simp add: recordAll_count startState_def)

lemma uploadStage_shuffles:
  "map pathname blobs \<in> shuffles (map file_r (uploadResults (uploadStage w e blobs)))
                                 (map file_e (uploadErrors (uploadStage w e blobs)))"
  unfolding uploadStage_def
  using recordAll_shuffles[of "[]" "startState e blobs" blobs w e]
  by (simp add: startState_def)












text \<open>
  The loop of the route and the loop that always pushes: a turn that does not raise is a
  turn that pushes, and a turn raises only on a rejected call (of \<^verbatim>\<open>fetch\<close>, of the reading
  of the body, or of \<^verbatim>\<open>axios.post\<close>) whose value the logger cannot write.
\<close>

lemma uploadStep_None:
  "uploadStep w e blob st = (None, st') \<Longrightarrow> st' = recordStep w e blob st"
  by (auto simp: uploadStep_def recordStep_def split: prod.splits sum.splits option.splits)

lemma uploadAll_None:
  "uploadAll w e blobs st = (None, st') \<Longrightarrow> st' = recordAll w e blobs st"
proof (induction blobs arbitrary: st)
  case Nil
  then show ?case by simp
next
  case (Cons b bs)
  obtain x st1 where step: "uploadStep w e b st = (x, st1)"
    by (cases "uploadStep w e b st")
  with Cons.prems have x: "x = None" and rest: "uploadAll w e bs st1 = (None, st')"
    by (cases x; simp)+
  from step x have "st1 = recordStep w e b st" by (simp add: uploadStep_None)
  with Cons.IH[OF rest] show ?case by simp
qed

lemma uploadBlob_raised:
  assumes "uploadBlob w e blob t = (Inl ex, t')" and "logError ex = Some m"
  shows "t' = t @ [FetchCall (url blob) (Inl ex)] \<or>
         (\<exists>resp. t' = t @ [FetchCall (url blob) (Inr resp)] \<and>
            readBody (snd (classifyPath (pathname blob))) resp = Inl ex) \<or>
         (\<exists>resp rq. t' = t @ [FetchCall (url blob) (Inr resp), UploadCall rq (Inl ex)])"
  using assms
  by (auto simp: uploadBlob_def classifyPath_def Let_def
      split: sum.splits if_splits prod.splits option.splits)

lemma uploadStep_Some:
  assumes "uploadStep w e blob st = (Some m, st')"
  obtains ex where "uploadBlob w e blob (events st) = (Inl ex, events st')"
    "logError ex = Some m" "st' = st\<lparr>events := events st'\<rparr>"
  using assms
  by (auto simp: uploadStep_def split: prod.splits sum.splits option.splits)

lemma uploadStep_trace:
  "uploadStep w e blob st = (x, st') \<Longrightarrow>
   \<exists>evs. events st' = events st @ evs \<and> (\<forall>ev\<in>set evs. isPhase1 ev)"
  by (cases "uploadBlob w e blob (events st)")
     (auto simp: uploadStep_def split: sum.splits option.splits dest: uploadBlob_events)

lemma uploadAll_trace:
  "uploadAll w e blobs st = (x, st') \<Longrightarrow>
   \<exists>evs. events st' = events st @ evs \<and> (\<forall>ev\<in>set evs. isPhase1 ev)"
proof (induction blobs arbitrary: st)
  case Nil
  then show ?case by simp
next
  case (Cons b bs)
  obtain y st1 where step: "uploadStep w e b st = (y, st1)"
    by (cases "uploadStep w e b st")
  from uploadStep_trace[OF step] obtain evs1 where
    1: "events st1 = events st @ evs1" "\<forall>ev\<in>set evs1. isPhase1 ev" by blast
  show ?case
  proof (cases y)
    case (Some m)
    with step Cons.prems have "st' = st1" by simp
    with 1 show ?thesis by blast
  next
    case None
    with step Cons.prems have "uploadAll w e bs st1 = (x, st')" by simp
    from Cons.IH[OF this] obtain evs2 where
      2: "events st' = events st1 @ evs2" "\<forall>ev\<in>set evs2. isPhase1 ev" by blast
    from 1 2 show ?thesis by (intro exI[of _ "evs1 @ evs2"]) auto
  qed
qed

text \<open>The loop raises only at a blob one of whose calls was rejected with a value that the
  logger cannot write.\<close>

lemma uploadAll_Some:
  "uploadAll w e blobs st = (Some m, st') \<Longrightarrow>
   \<exists>b\<in>set blobs. \<exists>ex t. uploadBlob w e b t = (Inl ex, events st') \<and> logError ex = Some m"
proof (induction blobs arbitrary: st)
  case Nil
  then show ?case by simp
next
  case (Cons b bs)
  obtain y st1 where step: "uploadStep w e b st = (y, st1)"
    by (cases "uploadStep w e b st")
  show ?case
  proof (cases y)
    case (Some m')
    with step Cons.prems have "uploadStep w e b st = (Some m, st')" by simp
    then show ?thesis by (elim uploadStep_Some) auto
  next
    case None
    with step Cons.prems have "uploadAll w e bs st1 = (Some m, st')" by simp
    from Cons.IH[OF this] show ?thesis by auto
  qed
qed

subsection \<open>The loop of phase 2\<close>

lemma pollLoop_ready [simp]: "pollLoop w e f True a t = (Inr True, t)"
  by simp

lemma pollLoop_exhausted [simp]: "maxAttempts \<le> a \<Longrightarrow> pollLoop w e f r a t = (Inr r, t)"
  by simp

lemma pollLoop_shape:
  "\<not> fileReady \<Longrightarrow> a < maxAttempts \<Longrightarrow> pollLoop w e f fileReady a t = (out, t') \<Longrightarrow>
   \<exists>evs rs. t' = t @ evs \<and> rs \<noteq> [] \<and> length rs + a \<le> maxAttempts \<and>
     (\<forall>ev\<in>set evs. ev = Sleep 3000 \<or> (\<exists>r. ev = pollCall e (id_u f) r)) \<and>
     filter (\<lambda>ev. \<not> isSleep ev) evs = map (pollCall e (id_u f)) rs \<and>
     (\<forall>r\<in>set (butlast rs). checkStatus r = Inr False) \<and>
     out = pollResult (checkStatus (last rs))"
proof (induction w e f fileReady a t arbitrary: out t' rule: pollLoop.induct)
  case (1 w e f fileReady a t)
  define r where "r = getFile w t (statusUrl e f) (bearer e)"
  define t1 where "t1 = t @ [pollCall e (id_u f) r]"
  have t1: "t1 = t @ [StatusCall (statusUrl e f) (bearer e) r]"
    by (simp add: t1_def pollCall_def statusUrl_def)
  note prems = "1.prems"
  have single: ?case if "out = pollResult (checkStatus r)" "t' = t1"
    using that prems
    by (intro exI[of _ "[pollCall e (id_u f) r]"] exI[of _ "[r]"])
       (simp add: t1_def pollCall_def)
  show ?case
  proof (cases "checkStatus r")
    case (Inl ex)
    with prems have "out = pollResult (checkStatus r)" "t' = t1"
      by (auto simp: r_def t1 Let_def pollResult_def split: option.splits)
    then show ?thesis by (rule single)
  next
    case (Inr b)
    show ?thesis
    proof (cases b)
      case True
      with Inr prems have "out = pollResult (checkStatus r)" "t' = t1"
        by (simp_all add: r_def t1 Let_def pollResult_def)
      then show ?thesis by (rule single)
    next
      case False
      show ?thesis
      proof (cases "a + 1 < maxAttempts")
        case last: False
        with Inr False prems have "out = pollResult (checkStatus r)" "t' = t1"
          by (simp_all add: r_def t1 Let_def pollResult_def)
        then show ?thesis by (rule single)
      next
        case more: True
        with Inr False prems have run: "pollLoop w e f fileReady (a + 1) (t1 @ [Sleep 3000]) = (out, t')"
          by (simp add: r_def t1 Let_def)
        have "\<exists>evs rs. t' = (t1 @ [Sleep 3000]) @ evs \<and> rs \<noteq> [] \<and> length rs + (a + 1) \<le> maxAttempts \<and>
           (\<forall>ev\<in>set evs. ev = Sleep 3000 \<or> (\<exists>r. ev = pollCall e (id_u f) r)) \<and>
           filter (\<lambda>ev. \<not> isSleep ev) evs = map (pollCall e (id_u f)) rs \<and>
           (\<forall>r\<in>set (butlast rs). checkStatus r = Inr False) \<and>
           out = pollResult (checkStatus (last rs))"
          using "1.IH"(2)[of "a + 1" r "t @ [StatusCall (statusUrl e f) (bearer e) r]" b out t']
            prems Inr False more run
          by (simp add: r_def t1)
        then obtain evs rs where
          a: "t' = (t1 @ [Sleep 3000]) @ evs" "rs \<noteq> []" "length rs + (a + 1) \<le> maxAttempts"
            "\<forall>ev\<in>set evs. ev = Sleep 3000 \<or> (\<exists>r. ev = pollCall e (id_u f) r)"
            "filter (\<lambda>ev. \<not> isSleep ev) evs = map (pollCall e (id_u f)) rs"
            "\<forall>r\<in>set (butlast rs). checkStatus r = Inr False"
            "out = pollResult (checkStatus (last rs))"
          by blast
        show ?thesis
          using a Inr False
          by (intro exI[of _ "pollCall e (id_u f) r # Sleep 3000 # evs"] exI[of _ "r # rs"])
             (auto simp: t1_def pollCall_def)
      qed
    qed
  qed
qed

lemma findIndex_bounds: "- 1 \<le> findIndex P xs \<and> findIndex P xs < int (length xs)"
  by (induction xs) (auto simp: Let_def)

lemma findIndex_hit:
  "0 \<le> findIndex P xs \<Longrightarrow> P (xs ! nat (findIndex P xs))"
proof (induction xs)
  case Nil
  then show ?case by simp
next
  case (Cons x xs)
  then show ?case
    by (cases "P x") (auto simp: Let_def nat_add_distrib split: if_splits)
qed

lemma findIndex_first:
  "k < length xs \<Longrightarrow> P (xs ! k) \<Longrightarrow> \<forall>j<k. \<not> P (xs ! j) \<Longrightarrow> findIndex P xs = int k"
proof (induction xs arbitrary: k)
  case Nil
  then show ?case by simp
next
  case (Cons x xs)
  show ?case
  proof (cases k)
    case 0
    with Cons.prems show ?thesis by simp
  next
    case (Suc k')
    with Cons.prems have "\<not> P x" by auto
    moreover have "\<forall>j<k'. \<not> P (xs ! j)"
    proof (intro allI impI)
      fix j assume "j < k'"
      with Cons.prems(3) Suc have "\<not> P ((x # xs) ! Suc j)" by blast
      then show "\<not> P (xs ! j)" by simp
    qed
    then have "findIndex P xs = int k'"
      using Cons.IH[of k'] Cons.prems Suc by simp
    ultimately show ?thesis using Suc by (simp add: Let_def)
  qed
qed

lemma findIndex_distinct:
  assumes "distinct (map g xs)" "k < length xs"
  shows "findIndex (\<lambda>r. g r = g (xs ! k)) xs = int k"
proof (rule findIndex_first[OF assms(2)])
  show "g (xs ! k) = g (xs ! k)" by simp
  show "\<forall>j<k. g (xs ! j) \<noteq> g (xs ! k)"
  proof (intro allI impI)
    fix j assume "j < k"
    with assms have "map g xs ! j \<noteq> map g xs ! k"
      by (simp add: nth_eq_iff_index_eq del: nth_map)
    with \<open>j < k\<close> assms(2) show "g (xs ! j) \<noteq> g (xs ! k)" by simp
  qed
qed

lemma findIndex_miss:
  "0 \<le> findIndex (\<lambda>r. g r = i) xs \<Longrightarrow> k < length xs \<Longrightarrow> g (xs ! k) \<noteq> i \<Longrightarrow>
   findIndex (\<lambda>r. g r = i) xs \<noteq> int k"
  using findIndex_hit[of "\<lambda>r. g r = i" xs] by auto

lemma length_setCollectionStatus [simp]:
  "length (setCollectionStatus j s res) = length res"
  by (simp add: setCollectionStatus_def)

lemma nth_setCollectionStatus:
  "k < length res \<Longrightarrow>
   setCollectionStatus j s res ! k =
     (if j = int k then (res ! k)\<lparr>collectionStatus := Some s\<rparr> else res ! k)"
  by (auto simp: setCollectionStatus_def nth_list_update)

lemma erase_setCollectionStatus [simp]:
  "map eraseCS (setCollectionStatus j s res) = map eraseCS res"
  by (rule nth_equalityI) (auto simp: nth_setCollectionStatus eraseCS_def)

text \<open>One turn of the loop of phase 2: its calls, and the status it writes.\<close>

lemma processUploadedFile_turn:
  assumes "processUploadedFile w e f (res, t) = (res', t')"
  obtains evs rs rest s where
    "t' = t @ evs"
    "\<forall>ev\<in>set evs. isSleep ev \<or> (\<exists>r. ev = pollCall e (id_u f) r) \<or> (\<exists>a. ev = addCall e (id_u f) a)"
    "filter (\<lambda>ev. \<not> isSleep ev) evs = map (pollCall e (id_u f)) rs @ rest"
    "segment e (id_u f) rs rest s"
    "res' = setCollectionStatus (findIndex (\<lambda>r. openWebUIId r = id_u f) res) s res"
proof -
  note turn = that
  let ?k = "findIndex (\<lambda>r. openWebUIId r = id_u f) res"
  obtain out t1 where poll: "pollLoop w e f False 0 t = (out, t1)"
    by (cases "pollLoop w e f False 0 t")
  from pollLoop_shape[OF _ _ poll] obtain evs rs where
    p: "t1 = t @ evs" "rs \<noteq> []" "length rs \<le> maxAttempts"
       "\<forall>ev\<in>set evs. ev = Sleep 3000 \<or> (\<exists>r. ev = pollCall e (id_u f) r)"
       "filter (\<lambda>ev. \<not> isSleep ev) evs = map (pollCall e (id_u f)) rs"
       "\<forall>r\<in>set (butlast rs). checkStatus r = Inr False"
       "out = pollResult (checkStatus (last rs))"
    by (auto simp: maxAttempts_def)
  have add: "AddCall (addRequest e f) a = addCall e (id_u f) a" for a
    by (simp add: addRequest_def addCall_def)
  have own: "\<forall>ev\<in>set evs. isSleep ev \<or> (\<exists>r. ev = pollCall e (id_u f) r) \<or>
               (\<exists>a. ev = addCall e (id_u f) a)"
    using p(4) by auto
  have unready: thesis
    if "checkStatus (last rs) \<noteq> Inr True" "res' = setCollectionStatus ?k s res" "t' = t1"
      "s = (case checkStatus (last rs) of Inr ready \<Rightarrow> ''not-processed'' | Inl ex \<Rightarrow> pollOutcome ex)"
    for s
  proof (rule turn[of evs rs "[]" s])
    show "segment e (id_u f) rs [] s"
      using p(2,3,6) that(1,4) by (auto simp: segment_def split: sum.splits)
  qed (use p own that in simp_all)
  show thesis
  proof (cases "checkStatus (last rs)")
    case (Inl ex)
    show ?thesis
    proof (cases "logError ex")
      case None
      with Inl p(7) have "out = Inr False" by (simp add: pollResult_def)
      with assms poll have "res' = setCollectionStatus ?k ''not-processed'' res" "t' = t1"
        by (simp_all add: processUploadedFile_def processBody_def)
      with Inl None show ?thesis
        by (intro unready[of "''not-processed''"]) (simp_all add: pollOutcome_def)
    next
      case (Some m)
      with Inl p(7) have "out = Inl m" by (simp add: pollResult_def)
      with assms poll have "res' = setCollectionStatus ?k ''error'' res" "t' = t1"
        by (simp_all add: processUploadedFile_def processBody_def)
      with Inl Some show ?thesis
        by (intro unready[of "''error''"]) (simp_all add: pollOutcome_def)
    qed
  next
    case (Inr ready)
    with p(7) have out: "out = Inr ready" by (simp add: pollResult_def)
    show ?thesis
    proof (cases ready)
      case False
      with out assms poll have "res' = setCollectionStatus ?k ''not-processed'' res" "t' = t1"
        by (simp_all add: processUploadedFile_def processBody_def)
      with Inr False show ?thesis
        by (intro unready[of "''not-processed''"]) simp_all
    next
      case True
      define a where "a = addFile w t1 (addRequest e f)"
      from assms poll out True have
        "res' = setCollectionStatus ?k (addOutcome a) res"
        "t' = t1 @ [addCall e (id_u f) a]"
        by (auto simp: processUploadedFile_def processBody_def Let_def a_def addOutcome_def add
            split: sum.splits option.splits)
      moreover have "segment e (id_u f) rs [addCall e (id_u f) a] (addOutcome a)"
        using p(2,3,6) Inr True by (auto simp: segment_def)
      ultimately show ?thesis
        using p own
        by (intro turn[of "evs @ [addCall e (id_u f) a]" rs "[addCall e (id_u f) a]" "addOutcome a"])
           (auto simp: addCall_def)
    qed
  qed
qed

lemma concerns_own:
  "isSleep ev \<or> (\<exists>r. ev = pollCall e i r) \<or> (\<exists>a. ev = addCall e i a) \<Longrightarrow>
   concerns e j ev = (j = i \<and> \<not> isSleep ev)"
  by (cases ev) (auto simp: pollCall_def addCall_def)

lemma itemCalls_turn:
  assumes "\<forall>ev\<in>set evs. isSleep ev \<or> (\<exists>r. ev = pollCall e i r) \<or> (\<exists>a. ev = addCall e i a)"
  shows "itemCalls e j evs = (if j = i then filter (\<lambda>ev. \<not> isSleep ev) evs else [])"
proof -
  have "filter (concerns e j) evs = filter (\<lambda>ev. j = i \<and> \<not> isSleep ev) evs"
    using assms by (intro filter_cong refl concerns_own) blast
  then show ?thesis by (simp add: itemCalls_def)
qed

lemma itemCalls_append [simp]: "itemCalls e i (t @ u) = itemCalls e i t @ itemCalls e i u"
  by (simp add: itemCalls_def)

lemma own_isPhase2:
  "isSleep ev \<or> (\<exists>r. ev = pollCall e i r) \<or> (\<exists>a. ev = addCall e i a) \<Longrightarrow> isPhase2 ev"
  by (cases ev) (auto simp: pollCall_def addCall_def)

lemma processAll_frame:
  "processAll w e fs (res, t) = (res', t') \<Longrightarrow> map eraseCS res' = map eraseCS res"
proof (induction fs arbitrary: res t)
  case Nil
  then show ?case by simp
next
  case (Cons f fs)
  obtain res1 t1 where turn: "processUploadedFile w e f (res, t) = (res1, t1)"
    by (cases "processUploadedFile w e f (res, t)")
  with Cons.prems have "processAll w e fs (res1, t1) = (res', t')" by simp
  from Cons.IH[OF this] have "map eraseCS res' = map eraseCS res1" .
  also have "\<dots> = map eraseCS res"
    using turn by (elim processUploadedFile_turn) simp
  finally show ?case .
qed

lemma processAll_events:
  "processAll w e fs (res, t) = (res', t') \<Longrightarrow> \<exists>evs. t' = t @ evs \<and> (\<forall>ev\<in>set evs. isPhase2 ev)"
proof (induction fs arbitrary: res t)
  case Nil
  then show ?case by simp
next
  case (Cons f fs)
  obtain res1 t1 where turn: "processUploadedFile w e f (res, t) = (res1, t1)"
    by (cases "processUploadedFile w e f (res, t)")
  with Cons.prems have "processAll w e fs (res1, t1) = (res', t')" by simp
  from Cons.IH[OF this] obtain evs2 where 2: "t' = t1 @ evs2" "\<forall>ev\<in>set evs2. isPhase2 ev"
    by blast
  from turn obtain evs1 where 1: "t1 = t @ evs1" "\<forall>ev\<in>set evs1. isPhase2 ev"
    by (elim processUploadedFile_turn) (blast intro: own_isPhase2)
  from 1 2 show ?case
    by (intro exI[of _ "evs1 @ evs2"]) auto
qed

lemma processAll_items:
  assumes "processAll w e fs (res, t) = (res', t')"
    and "distinct (map id_u fs)" and "distinct (map openWebUIId res)"
    and "k < length res"
  shows "if openWebUIId (res ! k) \<in> id_u ` set fs then
           \<exists>calls. itemCalls e (openWebUIId (res ! k)) t' = itemCalls e (openWebUIId (res ! k)) t @ calls \<and>
                   settled e (openWebUIId (res ! k)) calls (collectionStatus (res' ! k))
         else itemCalls e (openWebUIId (res ! k)) t' = itemCalls e (openWebUIId (res ! k)) t \<and>
              collectionStatus (res' ! k) = collectionStatus (res ! k)"
  using assms
proof (induction fs arbitrary: res t)
  case Nil
  then show ?case by simp
next
  case (Cons f fs)
  let ?i = "openWebUIId (res ! k)"
  obtain res1 t1 where turn: "processUploadedFile w e f (res, t) = (res1, t1)"
    by (cases "processUploadedFile w e f (res, t)")
  with Cons.prems have rest: "processAll w e fs (res1, t1) = (res', t')" by simp
  from turn obtain evs rs rest' s where
    t1: "t1 = t @ evs"
    and own: "\<forall>ev\<in>set evs. isSleep ev \<or> (\<exists>r. ev = pollCall e (id_u f) r) \<or> (\<exists>a. ev = addCall e (id_u f) a)"
    and calls: "filter (\<lambda>ev. \<not> isSleep ev) evs = map (pollCall e (id_u f)) rs @ rest'"
    and seg: "segment e (id_u f) rs rest' s"
    and res1: "res1 = setCollectionStatus (findIndex (\<lambda>r. openWebUIId r = id_u f) res) s res"
    by (elim processUploadedFile_turn)
  have ids1: "map openWebUIId res1 = map openWebUIId res"
  proof -
    have "map eraseCS res1 = map eraseCS res" by (simp add: res1)
    then have "map (openWebUIId \<circ> eraseCS) res1 = map (openWebUIId \<circ> eraseCS) res"
      by (metis map_map)
    then show ?thesis by (simp add: comp_def eraseCS_def)
  qed
  have len1: "length res1 = length res" by (simp add: res1)
  have id1: "openWebUIId (res1 ! k) = ?i"
    using ids1 Cons.prems(4) len1 by (metis nth_map)
  have d1: "distinct (map openWebUIId res1)" using ids1 Cons.prems(3) by simp
  have dfs: "distinct (map id_u fs)" "id_u f \<notin> id_u ` set fs" using Cons.prems(2) by auto
  have k1: "k < length res1" using len1 Cons.prems(4) by simp
  note IH = Cons.IH[OF rest dfs(1) d1 k1, unfolded id1]
  have ic: "itemCalls e ?i t1 = itemCalls e ?i t @ (if ?i = id_u f then map (pollCall e (id_u f)) rs @ rest' else [])"
    using itemCalls_turn[OF own, of ?i] calls by (simp add: t1)
  show ?case
  proof (cases "?i = id_u f")
    case True
    then have idx: "findIndex (\<lambda>r. openWebUIId r = id_u f) res = int k"
      using findIndex_distinct[OF Cons.prems(3,4)] by simp
    have cs1: "collectionStatus (res1 ! k) = Some s"
      using Cons.prems(4) by (simp add: res1 idx nth_setCollectionStatus)
    from True dfs(2) have "?i \<notin> id_u ` set fs" by simp
    with IH have "itemCalls e ?i t' = itemCalls e ?i t1" "collectionStatus (res' ! k) = Some s"
      by (simp_all add: cs1)
    with ic True seg show ?thesis
      by (auto simp: settled_def)
  next
    case False
    have cs1: "collectionStatus (res1 ! k) = collectionStatus (res ! k)"
    proof (cases "0 \<le> findIndex (\<lambda>r. openWebUIId r = id_u f) res")
      case True
      from findIndex_miss[OF this Cons.prems(4) False]
      show ?thesis using Cons.prems(4) by (simp add: res1 nth_setCollectionStatus)
    next
      case False
      then show ?thesis using Cons.prems(4) by (simp add: res1 nth_setCollectionStatus)
    qed
    from ic False have "itemCalls e ?i t1 = itemCalls e ?i t" by simp
    with IH cs1 False show ?thesis by auto
  qed
qed

lemma setCollectionStatus_in:
  assumes "Some s \<in> S" "\<forall>x\<in>set res. collectionStatus x \<in> S"
  shows "\<forall>x\<in>set (setCollectionStatus j s res). collectionStatus x \<in> S"
proof
  fix x assume "x \<in> set (setCollectionStatus j s res)"
  then obtain k where k: "k < length res" "x = setCollectionStatus j s res ! k"
    by (auto simp: in_set_conv_nth)
  then have "x = res ! k \<or> x = (res ! k)\<lparr>collectionStatus := Some s\<rparr>"
    by (simp add: nth_setCollectionStatus)
  with k(1) assms show "collectionStatus x \<in> S" by auto
qed

text \<open>What the shape of the calls about a file says about its collection status.\<close>

lemma pollCall_inject [simp]: "pollCall e i r = pollCall e j r' \<longleftrightarrow> i = j \<and> r = r'"
  by (auto simp: pollCall_def)

lemma pollCall_not_addCall [simp]:
  "pollCall e i r \<noteq> addCall e j a" "pollCall e i r \<noteq> AddCall rq a"
  "addCall e j a \<noteq> pollCall e i r" "AddCall rq a \<noteq> pollCall e i r"
  by (simp_all add: pollCall_def addCall_def)

lemma concerns_pollCall [simp]: "concerns e i (pollCall e j r) \<longleftrightarrow> i = j"
  by (auto simp: pollCall_def)

lemma concerns_addCall [simp]: "concerns e i (addCall e j a) \<longleftrightarrow> i = j"
  by (auto simp: addCall_def)

lemma isAdd_calls [simp]: "\<not> isAdd (pollCall e i r)" "isAdd (addCall e i a)"
  by (simp_all add: pollCall_def addCall_def)

text \<open>Content made of no-break spaces, line separators and byte order marks is blank: a
  file with such content is not ready, whatever its status.\<close>

lemma isReady_blank:
  "isReady (FileData (Some \<lparr>fr_status = Some ''completed'',
                             fr_content = Str [160, 8232, 65279, 32]\<rparr>)) = Inr False"
  by (simp add: isReady_def trim_def isSpace_def)

lemma checkStatus_Inl:
  "checkStatus r = Inl ex \<Longrightarrow> r = Inl ex \<or> logError ex = None"
  by (auto simp: checkStatus_def isReady_def Let_def
      split: sum.splits file_data.splits option.splits js_field.splits)

lemma checkStatus_rejected [simp]: "checkStatus (Inl ex) = Inl ex"
  by (simp add: checkStatus_def)

lemma segment_rest:
  "segment e i rs rest s \<Longrightarrow> rest = [] \<or> (\<exists>a. rest = [addCall e i a])"
  by (auto simp: segment_def split: sum.splits if_splits)

text \<open>A file none of whose polls was ready, and none of whose polls failed with a value
  that the logger cannot write: no call to add it, and \<open>not-processed\<close>.\<close>

lemma settled_never_ready:
  assumes "settled e i calls cs"
    and "\<forall>r. pollCall e i r \<in> set calls \<longrightarrow> checkStatus r \<noteq> Inr True"
    and "\<forall>ex. pollCall e i (Inl ex) \<in> set calls \<longrightarrow> logError ex = None"
  shows "cs = Some ''not-processed'' \<and> (\<forall>ev\<in>set calls. \<not> isAdd ev) \<and>
         1 \<le> length calls \<and> length calls \<le> maxAttempts"
proof -
  from assms(1) obtain rs rest s where
    c: "calls = map (pollCall e i) rs @ rest" and seg: "segment e i rs rest s" and cs: "cs = Some s"
    unfolding settled_def by blast
  from seg have ne: "rs \<noteq> []" and len: "length rs \<le> maxAttempts" by (simp_all add: segment_def)
  then have last: "pollCall e i (last rs) \<in> set calls" by (simp add: c)
  with assms(2) have nr: "checkStatus (last rs) \<noteq> Inr True" by blast
  have "rest = [] \<and> s = ''not-processed''"
  proof (cases "checkStatus (last rs)")
    case (Inl ex)
    from checkStatus_Inl[OF this] last assms(3) have "logError ex = None" by auto
    with seg Inl show ?thesis by (simp add: segment_def pollOutcome_def)
  next
    case (Inr b)
    with nr have "\<not> b" by simp
    with seg Inr show ?thesis by (simp add: segment_def)
  qed
  with c cs ne len show ?thesis by (cases rs) auto
qed

text \<open>A poll that failed is the last call about its file, and no call to add the file is
  made.\<close>

lemma settled_failed_poll:
  assumes "settled e i calls cs" and "calls = A @ pollCall e i r # B"
    and "checkStatus r = Inl ex"
  shows "B = [] \<and> cs = Some (pollOutcome ex) \<and> (\<forall>ev\<in>set calls. \<not> isAdd ev)"
proof -
  from assms(1) obtain rs rest s where
    c: "calls = map (pollCall e i) rs @ rest" and seg: "segment e i rs rest s" and cs: "cs = Some s"
    unfolding settled_def by blast
  let ?n = "length A"
  have at: "calls ! ?n = pollCall e i r" by (simp add: assms(2))
  have n_calls: "?n < length calls" by (simp add: assms(2))
  note rest_cases = segment_rest[OF seg]
  have n_rs: "?n < length rs"
  proof (rule ccontr)
    assume "\<not> ?n < length rs"
    with n_calls c have "calls ! ?n = rest ! (?n - length rs)" "?n - length rs < length rest"
      by (simp_all add: nth_append)
    with rest_cases at show False by auto
  qed
  then have r: "rs ! ?n = r" using at c by (simp add: nth_append)
  have last: "?n = length rs - 1"
  proof (rule ccontr)
    assume "?n \<noteq> length rs - 1"
    with n_rs have "?n < length (butlast rs)" by simp
    then have "butlast rs ! ?n \<in> set (butlast rs)" by (rule nth_mem)
    moreover have "butlast rs ! ?n = r" using \<open>?n < length (butlast rs)\<close> r by (simp add: nth_butlast)
    ultimately show False using seg assms(3) by (auto simp: segment_def)
  qed
  moreover from n_rs have "rs \<noteq> []" by auto
  ultimately have "last rs = r" using r by (simp add: last_conv_nth)
  with seg assms(3) have "rest = []" "s = pollOutcome ex" by (simp_all add: segment_def)
  moreover from this c have "length calls = length rs" by simp
  then have "length A + Suc (length B) = length rs" by (simp add: assms(2))
  with last n_rs have "length B = 0" by arith
  then have "B = []" by simp
  moreover have "\<forall>ev\<in>set calls. \<not> isAdd ev"
    using c \<open>rest = []\<close> by auto
  ultimately show ?thesis using cs by simp
qed

text \<open>A file with a failed call to add it: that call is the only one, and the status is
  the one its caught value gives.\<close>

lemma settled_add_failed:
  assumes "settled e i calls cs" and "addCall e i (Inl ex) \<in> set calls"
  shows "cs = Some (addOutcome (Inl ex)) \<and> filter isAdd calls = [addCall e i (Inl ex)]"
proof -
  from assms(1) obtain rs rest s where
    c: "calls = map (pollCall e i) rs @ rest" and seg: "segment e i rs rest s" and cs: "cs = Some s"
    unfolding settled_def by blast
  from assms(2) c have "addCall e i (Inl ex) \<in> set rest" by auto
  with seg have "rest = [addCall e i (Inl ex)]" "s = addOutcome (Inl ex)"
    by (auto simp: segment_def addCall_def split: sum.splits if_splits)
  moreover have "filter isAdd (map (pollCall e i) rs) = []"
    by (simp add: filter_empty_conv)
  ultimately show ?thesis using c cs by simp
qed

lemma settled_polled:
  assumes "settled e i calls cs"
  shows "\<exists>r. pollCall e i r \<in> set calls"
proof -
  from assms(1) obtain rs rest s where
    c: "calls = map (pollCall e i) rs @ rest" and seg: "segment e i rs rest s"
    unfolding settled_def by blast
  then have "rs \<noteq> []" by (simp add: segment_def)
  then have "pollCall e i (hd rs) \<in> set calls" by (simp add: c)
  then show ?thesis ..
qed

lemma addOutcome_cases:
  "addOutcome a = ''added'' \<or> addOutcome a = ''collection-failed'' \<or> addOutcome a = ''error''"
  by (simp add: addOutcome_def split: sum.splits option.splits)

lemma pollOutcome_cases: "pollOutcome ex = ''not-processed'' \<or> pollOutcome ex = ''error''"
  by (simp add: pollOutcome_def split: option.splits)

lemma segment_status:
  assumes "segment e i rs rest s"
  shows "s = ''not-processed'' \<or> s = ''added'' \<or> s = ''collection-failed'' \<or> s = ''error''"
proof (cases "checkStatus (last rs)")
  case (Inl ex)
  with assms have "s = pollOutcome ex" by (simp add: segment_def)
  with pollOutcome_cases[of ex] show ?thesis by auto
next
  case (Inr b)
  show ?thesis
  proof (cases b)
    case True
    with Inr assms obtain a :: "js_exn + unit" where "s = addOutcome a"
      by (auto simp: segment_def)
    with addOutcome_cases[of a] show ?thesis by auto
  next
    case False
    with Inr assms show ?thesis by (simp add: segment_def)
  qed
qed

lemma settled_status:
  assumes "settled e i calls cs"
  shows "cs \<in> {Some ''not-processed'', Some ''added'', Some ''collection-failed'', Some ''error''}"
proof -
  from assms(1) obtain rs rest s where seg: "segment e i rs rest s" and cs: "cs = Some s"
    unfolding settled_def by blast
  from segment_status[OF seg] cs show ?thesis by auto
qed

subsection \<open>Whole runs\<close>

lemma POST_summaryE:
  assumes "POST w e req = ((code, SummaryBody r), tr)"
  obtains blobs where
    "listBlobs w [] (BLOB_READ_WRITE_TOKEN e) = Inr blobs"
    "code = 200"
    "r = summarize w blobs (uploadErrors (uploadStage w e blobs)) (phase2 w e (uploadStage w e blobs))"
    "tr = snd (phase2 w e (uploadStage w e blobs))"
proof -
  from assms obtain blobs st where
    l: "listBlobs w [] (BLOB_READ_WRITE_TOKEN e) = Inr blobs"
    and u: "uploadAll w e blobs (startState e blobs) = (None, st)"
    and c: "code = 200"
    and r: "r = summarize w blobs (uploadErrors st) (phase2 w e st)"
    and tr: "tr = snd (phase2 w e st)"
    by (auto simp: POST_def Let_def startState_def
        split: if_splits sum.splits option.splits prod.splits)
  from uploadAll_None[OF u] have "st = uploadStage w e blobs" by (simp add: uploadStage_def)
  with l c r tr show thesis by (intro that[of blobs]) simp_all
qed

lemma POST_summary_stage:
  assumes "POST w e req = ((code, SummaryBody r), tr)"
    and "listBlobs w [] (BLOB_READ_WRITE_TOKEN e) = Inr blobs"
  shows "uploadAll w e blobs (startState e blobs) = (None, uploadStage w e blobs)"
proof -
  from assms obtain st where u: "uploadAll w e blobs (startState e blobs) = (None, st)"
    by (auto simp: POST_def Let_def startState_def
        split: if_splits sum.splits option.splits prod.splits)
  from uploadAll_None[OF u] u show ?thesis by (simp add: uploadStage_def)
qed

lemma phase2_frame: "map eraseCS (fst (phase2 w e st)) = map eraseCS (uploadResults st)"
proof (cases "truthy (KNOWLEDGE_COLLECTION_ID e) \<and> length (uploadedFiles st) > 0")
  case True
  then show ?thesis
    using processAll_frame[of w e "uploadedFiles st" "uploadResults st" "events st @ [Sleep 5000]"]
    by (cases "processAll w e (uploadedFiles st) (uploadResults st, events st @ [Sleep 5000])")
       (simp add: phase2_def)
next
  case False
  then show ?thesis by (auto simp: phase2_def eraseCS_def)
qed

lemma eraseCS_toResult [simp]: "eraseCS (toResult f) = toResult f"
  by (simp add: eraseCS_def toResult_def)

lemma final_results_frame:
  "map eraseCS (fst (phase2 w e (uploadStage w e blobs))) = uploadResults (uploadStage w e blobs)"
  by (simp add: phase2_frame uploadStage_aligned)

lemma final_results_fields:
  assumes "x \<in> set (fst (phase2 w e (uploadStage w e blobs)))"
  shows "status x = ''uploaded''"
proof -
  from assms have "eraseCS x \<in> set (map eraseCS (fst (phase2 w e (uploadStage w e blobs))))"
    by simp
  then have "eraseCS x \<in> set (map toResult (uploadedFiles (uploadStage w e blobs)))"
    by (simp only: final_results_frame uploadStage_aligned)
  then obtain f where "eraseCS x = toResult f" by auto
  then have "status (eraseCS x) = ''uploaded''" by (simp add: toResult_def)
  then show ?thesis by (simp add: eraseCS_def)
qed

lemma length_final_results:
  "length (fst (phase2 w e (uploadStage w e blobs))) = length (uploadResults (uploadStage w e blobs))"
  using arg_cong[OF final_results_frame[of w e blobs], of length] by simp

lemma map_file_final_results:
  "map file_r (fst (phase2 w e (uploadStage w e blobs))) = map file_r (uploadResults (uploadStage w e blobs))"
proof -
  have "map file_r (map eraseCS (fst (phase2 w e (uploadStage w e blobs)))) = map file_r (uploadResults (uploadStage w e blobs))"
    by (simp only: final_results_frame)
  then show ?thesis by (simp add: comp_def eraseCS_def)
qed


lemma phase1_not_concerned: "isPhase1 ev \<Longrightarrow> \<not> concerns e i ev"
  by (cases ev) simp_all

lemma phase1_not_phase2: "isPhase1 ev \<Longrightarrow> \<not> isPhase2 ev"
  by (cases ev) simp_all

lemma itemCalls_uploadStage [simp]: "itemCalls e i (events (uploadStage w e blobs)) = []"
  using uploadStage_events[of w e blobs]
  by (auto simp: itemCalls_def filter_empty_conv dest: phase1_not_concerned)

lemma phase2_trace:
  "\<exists>evs. snd (phase2 w e st) = events st @ evs \<and> (\<forall>ev\<in>set evs. isPhase2 ev)"
proof (cases "truthy (KNOWLEDGE_COLLECTION_ID e) \<and> length (uploadedFiles st) > 0")
  case True
  obtain res' t' where p: "processAll w e (uploadedFiles st) (uploadResults st, events st @ [Sleep 5000]) = (res', t')"
    by (cases "processAll w e (uploadedFiles st) (uploadResults st, events st @ [Sleep 5000])")
  from processAll_events[OF p] obtain evs where "t' = (events st @ [Sleep 5000]) @ evs" "\<forall>ev\<in>set evs. isPhase2 ev"
    by blast
  with True p show ?thesis
    by (intro exI[of _ "Sleep 5000 # evs"]) (simp add: phase2_def)
next
  case False
  then show ?thesis by (auto simp: phase2_def)
qed

lemma run_phase1_calls:
  "filter isPhase1 (snd (phase2 w e (uploadStage w e blobs))) = events (uploadStage w e blobs)"
proof -
  from phase2_trace[of w e "uploadStage w e blobs"] obtain evs where
    t: "snd (phase2 w e (uploadStage w e blobs)) = events (uploadStage w e blobs) @ evs"
    and evs: "\<forall>ev\<in>set evs. isPhase2 ev" by blast
  have "filter isPhase1 evs = []"
    using evs by (auto simp: filter_empty_conv dest: phase1_not_phase2)
  moreover have "filter isPhase1 (events (uploadStage w e blobs)) = events (uploadStage w e blobs)"
    using uploadStage_events[of w e blobs] by (simp add: filter_id_conv)
  ultimately show ?thesis by (simp add: t)
qed


lemma phase2_skipped:
  assumes "ev \<in> set (snd (phase2 w e st))" "\<not> isPhase1 ev" "\<forall>ev\<in>set (events st). isPhase1 ev"
  shows "truthy (KNOWLEDGE_COLLECTION_ID e) \<and> uploadedFiles st \<noteq> []"
  using assms by (auto simp: phase2_def split: if_splits)

text \<open>The calls about one uploaded file and its collection status in the final results.\<close>

lemma run_settled:
  assumes cid: "truthy (KNOWLEDGE_COLLECTION_ID e)"
    and d: "distinct (map openWebUIId (fst (phase2 w e (uploadStage w e blobs))))"
    and k: "k < length (fst (phase2 w e (uploadStage w e blobs)))"
  defines "x \<equiv> fst (phase2 w e (uploadStage w e blobs)) ! k"
  shows "settled e (openWebUIId x) (itemCalls e (openWebUIId x) (snd (phase2 w e (uploadStage w e blobs))))
           (collectionStatus x)"
proof -
  let ?st = "uploadStage w e blobs"
  have ids: "map openWebUIId (fst (phase2 w e ?st)) = map openWebUIId (uploadResults ?st)"
  proof -
    have "map (openWebUIId \<circ> eraseCS) (fst (phase2 w e ?st)) = map openWebUIId (uploadResults ?st)"
      using arg_cong[OF final_results_frame[of w e blobs], of "map openWebUIId"] by simp
    then show ?thesis by (simp add: comp_def eraseCS_def)
  qed
  have k': "k < length (uploadResults ?st)" using k by (simp add: length_final_results)
  then have ne: "uploadedFiles ?st \<noteq> []" by (auto simp: uploadStage_aligned)
  have idx: "openWebUIId x = openWebUIId (uploadResults ?st ! k)"
    using ids k k' unfolding x_def by (metis nth_map)
  have ids_u: "map openWebUIId (uploadResults ?st) = map id_u (uploadedFiles ?st)"
    by (simp add: uploadStage_aligned toResult_def comp_def)
  obtain res' t' where p: "processAll w e (uploadedFiles ?st) (uploadResults ?st, events ?st @ [Sleep 5000]) = (res', t')"
    by (cases "processAll w e (uploadedFiles ?st) (uploadResults ?st, events ?st @ [Sleep 5000])")
  with cid ne have fin: "phase2 w e ?st = (res', t')" by (simp add: phase2_def)
  have mem: "openWebUIId (uploadResults ?st ! k) \<in> id_u ` set (uploadedFiles ?st)"
    using k' ids_u by (metis image_set nth_mem length_map nth_map)
  from processAll_items[OF p _ _ k'] d ids ids_u mem
  obtain calls where
    "itemCalls e (openWebUIId (uploadResults ?st ! k)) t' =
       itemCalls e (openWebUIId (uploadResults ?st ! k)) (events ?st @ [Sleep 5000]) @ calls"
    "settled e (openWebUIId (uploadResults ?st ! k)) calls (collectionStatus (res' ! k))"
    by auto
  then show ?thesis
    by (simp add: fin x_def [symmetric] idx) (simp add: x_def fin itemCalls_def)
qed

lemma POST_cases:
  assumes "POST w e req = (resp, tr)"
  obtains (refused) "tr = []"
  | (listing_failed) ex where "tr = [ListCall (BLOB_READ_WRITE_TOKEN e) (Inl ex)]"
  | (upload_raised) blobs m st where
      "listBlobs w [] (BLOB_READ_WRITE_TOKEN e) = Inr blobs"
      "uploadAll w e blobs (startState e blobs) = (Some m, st)"
      "resp = (500, FailureBody ''Sync operation failed'' m (now w tr))" "tr = events st"
  | (summary) r where "resp = (200, SummaryBody r)"
  using assms
  by (auto simp: POST_def Let_def startState_def
      split: if_splits sum.splits option.splits prod.splits)

text \<open>A run that ends in the upload loop has made calls of phase 1 only.\<close>

lemma upload_raised_events:
  assumes "uploadAll w e blobs (startState e blobs) = (x, st)"
  shows "\<forall>ev\<in>set (events st). isPhase1 ev"
  using uploadAll_trace[OF assms] by (auto simp: startState_def)

lemma processAll_events_own:
  "processAll w e fs (res, t) = (res', t') \<Longrightarrow>
   \<exists>evs. t' = t @ evs \<and>
     (\<forall>ev\<in>set evs. isSleep ev \<or>
        (\<exists>f\<in>set fs. (\<exists>r. ev = pollCall e (id_u f) r) \<or> (\<exists>a. ev = addCall e (id_u f) a)))"
proof (induction fs arbitrary: res t)
  case Nil
  then show ?case by simp
next
  case (Cons f fs)
  obtain res1 t1 where turn: "processUploadedFile w e f (res, t) = (res1, t1)"
    by (cases "processUploadedFile w e f (res, t)")
  with Cons.prems have "processAll w e fs (res1, t1) = (res', t')" by simp
  from Cons.IH[OF this] obtain evs2 where 2: "t' = t1 @ evs2"
    "\<forall>ev\<in>set evs2. isSleep ev \<or>
        (\<exists>f\<in>set fs. (\<exists>r. ev = pollCall e (id_u f) r) \<or> (\<exists>a. ev = addCall e (id_u f) a))"
    by blast
  from turn obtain evs1 where 1: "t1 = t @ evs1"
    "\<forall>ev\<in>set evs1. isSleep ev \<or> (\<exists>r. ev = pollCall e (id_u f) r) \<or> (\<exists>a. ev = addCall e (id_u f) a)"
    by (elim processUploadedFile_turn) blast
  have "\<forall>ev\<in>set (evs1 @ evs2). isSleep ev \<or>
        (\<exists>g\<in>set (f # fs). (\<exists>r. ev = pollCall e (id_u g) r) \<or> (\<exists>a. ev = addCall e (id_u g) a))"
  proof
    fix ev assume "ev \<in> set (evs1 @ evs2)"
    then consider "ev \<in> set evs1" | "ev \<in> set evs2" by auto
    then show "isSleep ev \<or>
        (\<exists>g\<in>set (f # fs). (\<exists>r. ev = pollCall e (id_u g) r) \<or> (\<exists>a. ev = addCall e (id_u g) a))"
    proof cases
      case 1
      with \<open>\<forall>ev\<in>set evs1. _\<close> show ?thesis by simp blast
    next
      case 2
      with \<open>\<forall>ev\<in>set evs2. _\<close> show ?thesis by simp blast
    qed
  qed
  with 1 2 show ?case by (intro exI[of _ "evs1 @ evs2"]) simp
qed

lemma final_ids:
  "map openWebUIId (fst (phase2 w e (uploadStage w e blobs))) = map id_u (uploadedFiles (uploadStage w e blobs))"
proof -
  let ?st = "uploadStage w e blobs"
  have "map (openWebUIId \<circ> eraseCS) (fst (phase2 w e ?st)) = map openWebUIId (uploadResults ?st)"
    using arg_cong[OF final_results_frame[of w e blobs], of "map openWebUIId"] by simp
  then have "map openWebUIId (fst (phase2 w e ?st)) = map openWebUIId (uploadResults ?st)"
    by (simp add: comp_def eraseCS_def)
  then show ?thesis by (simp add: uploadStage_aligned toResult_def comp_def)
qed

text \<open>A poll in the trace is the poll of a file that was uploaded.\<close>

lemma run_poll_of_uploaded:
  assumes "pollCall e i a \<in> set (snd (phase2 w e (uploadStage w e blobs)))"
  shows "truthy (KNOWLEDGE_COLLECTION_ID e) \<and> i \<in> openWebUIId ` set (fst (phase2 w e (uploadStage w e blobs)))"
proof -
  let ?st = "uploadStage w e blobs"
  have np: "\<not> isPhase1 (pollCall e i a)" by (simp add: pollCall_def)
  from phase2_skipped[OF assms np uploadStage_events]
  have cid: "truthy (KNOWLEDGE_COLLECTION_ID e)" and ne: "uploadedFiles ?st \<noteq> []" by simp_all
  obtain res' t' where p: "processAll w e (uploadedFiles ?st) (uploadResults ?st, events ?st @ [Sleep 5000]) = (res', t')"
    by (cases "processAll w e (uploadedFiles ?st) (uploadResults ?st, events ?st @ [Sleep 5000])")
  with cid ne have fin: "phase2 w e ?st = (res', t')" by (simp add: phase2_def)
  from processAll_events_own[OF p] obtain evs where
    t': "t' = (events ?st @ [Sleep 5000]) @ evs"
    and own: "\<forall>ev\<in>set evs. isSleep ev \<or>
        (\<exists>f\<in>set (uploadedFiles ?st). (\<exists>r. ev = pollCall e (id_u f) r) \<or> (\<exists>a. ev = addCall e (id_u f) a))"
    by blast
  from assms fin t' have "pollCall e i a \<in> set (events ?st) \<or> pollCall e i a \<in> set evs"
    by (auto simp: pollCall_def)
  with np uploadStage_events[of w e blobs] have "pollCall e i a \<in> set evs" by blast
  with own have "isSleep (pollCall e i a) \<or>
        (\<exists>f\<in>set (uploadedFiles ?st). (\<exists>r. pollCall e i a = pollCall e (id_u f) r) \<or> (\<exists>a'. pollCall e i a = addCall e (id_u f) a'))"
    by blast
  then have "i \<in> id_u ` set (uploadedFiles ?st)"
    by (auto simp: pollCall_def addCall_def)
  then have "i \<in> set (map id_u (uploadedFiles ?st))" by simp
  then have "i \<in> set (map openWebUIId (fst (phase2 w e ?st)))" by (simp only: final_ids)
  with cid show ?thesis by simp
qed

lemma phase2_statuses:
  "\<forall>x\<in>set (fst (phase2 w e (uploadStage w e blobs))).
     collectionStatus x \<in> {None, Some ''not-processed'', Some ''added'', Some ''collection-failed'',
                            Some ''error''}"
proof -
  let ?S = "{None, Some ''not-processed'', Some ''added'', Some ''collection-failed'',
             Some ''error''}"
  have turn: "\<forall>x\<in>set res'. collectionStatus x \<in> ?S"
    if "processUploadedFile w e f (res, t) = (res', t')" "\<forall>x\<in>set res. collectionStatus x \<in> ?S"
    for f res t res' t'
  proof -
    from that(1) obtain rs rest s where seg: "segment e (id_u f) rs rest s"
      and res': "res' = setCollectionStatus (findIndex (\<lambda>r. openWebUIId r = id_u f) res) s res"
      by (elim processUploadedFile_turn)
    have "settled e (id_u f) (map (pollCall e (id_u f)) rs @ rest) (Some s)"
      using seg by (auto simp: settled_def)
    from settled_status[OF this] have s: "Some s \<in> ?S" by auto
    from setCollectionStatus_in[OF s that(2)] show ?thesis by (simp only: res')
  qed
  have loop: "\<forall>x\<in>set res'. collectionStatus x \<in> ?S"
    if "processAll w e fs (res, t) = (res', t')" "\<forall>x\<in>set res. collectionStatus x \<in> ?S"
    for fs res t res' t'
    using that
  proof (induction fs arbitrary: res t)
    case Nil
    then show ?case by simp
  next
    case (Cons f fs)
    obtain res1 t1 where t1: "processUploadedFile w e f (res, t) = (res1, t1)"
      by (cases "processUploadedFile w e f (res, t)")
    with Cons.prems have "processAll w e fs (res1, t1) = (res', t')" by simp
    from Cons.IH[OF this turn[OF t1 Cons.prems(2)]] show ?case .
  qed
  let ?st = "uploadStage w e blobs"
  show ?thesis
  proof (cases "truthy (KNOWLEDGE_COLLECTION_ID e) \<and> length (uploadedFiles ?st) > 0")
    case True
    obtain res' t' where p: "processAll w e (uploadedFiles ?st) (uploadResults ?st, events ?st @ [Sleep 5000]) = (res', t')"
      by (cases "processAll w e (uploadedFiles ?st) (uploadResults ?st, events ?st @ [Sleep 5000])")
    have "\<forall>x\<in>set (uploadResults ?st). collectionStatus x \<in> ?S"
      by (auto simp: uploadStage_aligned toResult_def)
    from loop[OF p this] True p show ?thesis by (simp add: phase2_def)
  next
    case False
    then show ?thesis by (auto simp: phase2_def)
  qed
qed

text \<open>
  The responses of the handler: the two bodies with the error alone, the failure with its
  details and timestamp, the summary; or the handler raises.
\<close>

lemma POST_shapes:
  "fst (POST w e req) = (401, ErrorBody ''Unauthorized'') \<or>
   fst (POST w e req) = (500, ErrorBody ''Missing required environment variables'') \<or>
   (\<exists>details ts. fst (POST w e req) = (500, FailureBody ''Sync operation failed'' details ts)) \<or>
   (\<exists>m. fst (POST w e req) = (500, Unhandled m)) \<or>
   (\<exists>r. fst (POST w e req) = (200, SummaryBody r))"
  by (auto simp: POST_def Let_def split: sum.splits option.splits prod.splits)

text \<open>
  The failure with details and timestamp answers a rejected listing, before any item is
  processed; after the listing it is sent only when the logger has raised in the upload
  loop, on a value caught there that it cannot write.
\<close>

lemma POST_failure_cases:
  assumes "POST w e req = ((code, FailureBody err details ts), tr)"
  shows "code = 500 \<and> err = ''Sync operation failed'' \<and> ts = now w tr \<and>
         ((\<exists>ex. listBlobs w [] (BLOB_READ_WRITE_TOKEN e) = Inl ex \<and> logError ex = None \<and>
             details = errorMessage ex \<and> tr = [ListCall (BLOB_READ_WRITE_TOKEN e) (Inl ex)]) \<or>
          (\<exists>blobs st. listBlobs w [] (BLOB_READ_WRITE_TOKEN e) = Inr blobs \<and>
             uploadAll w e blobs (startState e blobs) = (Some details, st) \<and> tr = events st \<and>
             (\<exists>b\<in>set blobs. \<exists>ex t. uploadBlob w e b t = (Inl ex, tr) \<and>
                logError ex = Some details)))"
proof -
  from assms consider
    (listing) ex where "listBlobs w [] (BLOB_READ_WRITE_TOKEN e) = Inl ex" "logError ex = None"
      "code = 500" "err = ''Sync operation failed''" "details = errorMessage ex"
      "tr = [ListCall (BLOB_READ_WRITE_TOKEN e) (Inl ex)]" "ts = now w tr"
  | (raised) blobs st where "listBlobs w [] (BLOB_READ_WRITE_TOKEN e) = Inr blobs"
      "uploadAll w e blobs (startState e blobs) = (Some details, st)"
      "code = 500" "err = ''Sync operation failed''" "tr = events st" "ts = now w tr"
    by (auto simp: POST_def Let_def startState_def
        split: if_splits sum.splits option.splits prod.splits)
  then show ?thesis
  proof cases
    case listing
    then show ?thesis by simp
  next
    case raised
    from uploadAll_Some[OF raised(2)] raised show ?thesis by auto
  qed
qed

lemma POST_loggable_failure:
  assumes "POST w e req = ((code, FailureBody err details ts), tr)"
    and "\<forall>b\<in>set (case listBlobs w [] (BLOB_READ_WRITE_TOKEN e) of Inl ex \<Rightarrow> [] | Inr blobs \<Rightarrow> blobs).
           \<forall>ex t t'. uploadBlob w e b t = (Inl ex, t') \<longrightarrow> logError ex = None"
  shows "\<exists>ex. tr = [ListCall (BLOB_READ_WRITE_TOKEN e) (Inl ex)]"
  using POST_failure_cases[OF assms(1)] assms(2) by fastforce

text \<open>An authorised request with a required variable missing: status 500 and the error
  alone, before any call.\<close>

lemma POST_missing_env:
  assumes "truthy (CRON_SECRET e)"
    and "authorization req = Some (''Bearer '' @ templ (CRON_SECRET e))"
    and "\<not> truthy (BLOB_READ_WRITE_TOKEN e) \<or> \<not> truthy (OPEN_WEB_UI_BASE_URL e) \<or>
         \<not> truthy (OPEN_WEB_UI_API_KEY e)"
  shows "POST w e req = ((500, ErrorBody ''Missing required environment variables''), [])"
  using assms by (auto simp: POST_def missingEnvVars_def List.map_filter_def)

subsection \<open>The runs of the example\<close>

lemma demo_run: "POST demoWorld demoEnv demoRequest = ((200, SummaryBody demoSummary), demoTrace)"
  by code_simp

lemma plain_run: "POST demoWorld plainEnv demoRequest = ((200, SummaryBody plainSummary), demoPhase1)"
  by code_simp

lemma demo_listing: "listBlobs demoWorld [] (BLOB_READ_WRITE_TOKEN demoEnv) = Inr demoBlobs"
  by (simp add: demoWorld_def)

lemmas demo_defs = demoSummary_def demoResult_def demoErrors_def demoBlobs_def demoTrace_def
  demoBefore_def demoAfter_def demoPhase1_def demoUpload_def demoEnv_def okResponse_def
  notFound_def pending_def completed_def

lemma demo_stage:
  "uploadAll demoWorld demoEnv demoBlobs (startState demoEnv demoBlobs) = (None, demoStage)"
  by code_simp

text \<open>The runs in which two uploads get the same id.\<close>

lemma stuck_run:
  "POST stuckWorld demoEnv demoRequest =
     ((200, SummaryBody (twinSummary (Some ''not-processed'') 0)), stuckTrace)"
  by code_simp

lemma deaf_run:
  "POST deafWorld demoEnv demoRequest =
     ((200, SummaryBody (twinSummary (Some ''not-processed'') 0)), deafTrace)"
  by code_simp

lemma retry_run:
  "POST retryWorld demoEnv demoRequest =
     ((200, SummaryBody (twinSummary (Some ''added'') 1)), retryTrace)"
  by code_simp

text \<open>The runs in which the logger raises: in phase 2 the outer \<^verbatim>\<open>catch\<close> of the turn writes
  \<open>error\<close>; in the upload loop the run ends with a failure after two blobs were fetched.\<close>

lemma loop_run:
  "POST loopWorld demoEnv demoRequest = ((200, SummaryBody loopSummary), loopTrace)"
  by code_simp

lemma broken_fetch_run:
  "POST brokenFetchWorld demoEnv demoRequest =
     ((500, FailureBody ''Sync operation failed'' ''Converting circular structure to JSON''
              ''2025-10-30T14:33:31.715Z''), brokenFetchTrace)"
  by code_simp

lemmas twin_defs = twinSummary_def twinResult_def twinBlobs_def twinPhase1_def twinUpload_def
  stuckTrace_def sixPolls_def deafTrace_def retryTrace_def demoEnv_def okResponse_def
  pending_def completed_def

section \<open>The claims of the specification\<close>

subsection \<open>C1: the entries of the results\<close>

text \<open>
  Claim C1 as stated fails: \<^verbatim>\<open>results[]\<close> would hold an entry for every listed blob, failed
  uploads included. The route pushes a result only after a successful upload and records
  a failure in \<^verbatim>\<open>errors[]\<close>: in the run of the example the blob \<^verbatim>\<open>a.md\<close> is listed, its
  fetch fails, and \<^verbatim>\<open>results[]\<close> has no entry for it.
\<close>

theorem C1_counterexample:
  "POST demoWorld demoEnv demoRequest = ((200, SummaryBody demoSummary), demoTrace) \<and>
   listBlobs demoWorld [] (BLOB_READ_WRITE_TOKEN demoEnv) = Inr demoBlobs \<and>
   ''a.md'' \<in> set (map pathname demoBlobs) \<and>
   ''a.md'' \<notin> set (map file_r (results demoSummary)) \<and>
   map file_r (results demoSummary) \<noteq> map pathname demoBlobs"
  by (simp add: demo_run demo_listing) (simp add: demoSummary_def demoBlobs_def demoResult_def)

text \<open>
  Claim C1, amended. For every run that completes with a summary, the listing is an
  interleaving of the files of \<^verbatim>\<open>results[]\<close> and the files of \<^verbatim>\<open>errors[]\<close>: every listed
  blob has exactly one entry, in \<^verbatim>\<open>results[]\<close> if its upload succeeded (with status
  \<^verbatim>\<open>uploaded\<close>) and in \<^verbatim>\<open>errors[]\<close> if it failed, and both sequences are in the order of
  the listing.
\<close>

theorem C1_results_and_errors_in_listing_order:
  assumes "POST w e req = ((code, SummaryBody r), tr)"
    and "listBlobs w [] (BLOB_READ_WRITE_TOKEN e) = Inr blobs"
  shows "map pathname blobs \<in> shuffles (map file_r (results r)) (map file_e (errors r)) \<and>
         (\<forall>x\<in>set (results r). status x = ''uploaded'')"
proof -
  from assms(1) obtain blobs' where
    "listBlobs w [] (BLOB_READ_WRITE_TOKEN e) = Inr blobs'"
    "r = summarize w blobs' (uploadErrors (uploadStage w e blobs')) (phase2 w e (uploadStage w e blobs'))"
    by (elim POST_summaryE)
  with assms(2) have r: "r = summarize w blobs (uploadErrors (uploadStage w e blobs)) (phase2 w e (uploadStage w e blobs))"
    by simp
  have res: "results r = fst (phase2 w e (uploadStage w e blobs))"
    and errs: "errors r = uploadErrors (uploadStage w e blobs)"
    by (simp_all add: r summarize_def split_beta)
  show ?thesis
    using uploadStage_shuffles[of blobs w e]
    by (simp add: res errs map_file_final_results final_results_fields)
qed

theorem C1_witness:
  "[''a.md'', ''b.pdf'', ''c.txt'', ''d.json'', ''e.html'']
     \<in> shuffles [''b.pdf'', ''c.txt'', ''d.json'', ''e.html''] [''a.md'']"
  using C1_results_and_errors_in_listing_order[OF demo_run demo_listing]
  by (simp add: demoSummary_def demoBlobs_def demoResult_def demoErrors_def)

subsection \<open>C2: the counters of the summary\<close>

text \<open>
  Claim C2. For every run that completes with a summary, \<^verbatim>\<open>successful + failed\<close> is
  \<^verbatim>\<open>totalFiles\<close>, \<^verbatim>\<open>addedToCollection\<close> lies between \<open>0\<close> and \<^verbatim>\<open>successful\<close>, and
  \<^verbatim>\<open>totalFiles\<close> is the number of blobs the listing returned.
\<close>

theorem C2_counters:
  assumes "POST w e req = ((code, SummaryBody r), tr)"
  shows "successful r + failed r = totalFiles r \<and>
         0 \<le> addedToCollection r \<and> addedToCollection r \<le> successful r \<and>
         (\<exists>blobs. listBlobs w [] (BLOB_READ_WRITE_TOKEN e) = Inr blobs \<and> totalFiles r = length blobs)"
proof -
  from assms obtain blobs where
    l: "listBlobs w [] (BLOB_READ_WRITE_TOKEN e) = Inr blobs"
    and r: "r = summarize w blobs (uploadErrors (uploadStage w e blobs)) (phase2 w e (uploadStage w e blobs))"
    by (elim POST_summaryE)
  let ?fin = "phase2 w e (uploadStage w e blobs)"
  have all: "filter (\<lambda>x. status x = ''uploaded'') (fst ?fin) = fst ?fin"
    by (rule filter_True) (simp add: final_results_fields)
  have s: "successful r = length (fst ?fin)"
    by (simp add: r summarize_def split_beta all)
  have a: "addedToCollection r \<le> length (fst ?fin)"
    by (simp add: r summarize_def split_beta)
  have f: "failed r = length (uploadErrors (uploadStage w e blobs))"
    by (simp add: r summarize_def split_beta)
  have t: "totalFiles r = length blobs"
    by (simp add: r summarize_def split_beta)
  from s a f t l show ?thesis
    using uploadStage_count[of w e blobs] by (simp add: length_final_results)
qed

theorem C2_counters_witness:
  "successful demoSummary + failed demoSummary = totalFiles demoSummary \<and>
   addedToCollection demoSummary \<le> successful demoSummary \<and>
   totalFiles demoSummary = 5"
  using C2_counters[OF demo_run] by (simp add: demoSummary_def)

subsection \<open>C3: failures of the upload stage stay with their item\<close>



subsection \<open>C4: a file that is never ready\<close>

text \<open>
  Claim C4 as stated fails when two uploads are answered with the same id: the route
  finds the entry of a file with \<^verbatim>\<open>findIndex\<close> on the id, which stops at the first entry of
  that id. In the run below both files are uploaded and get the id \<open>dup\<close>; none of the
  twelve status polls reports a processed file; the entry of the first file gets
  \<^verbatim>\<open>not-processed\<close> twice, and the entry of the second file, \<^verbatim>\<open>r.txt\<close>, which was never
  ready either, ends with the collection status \<^verbatim>\<open>null\<close>.
\<close>

theorem C4_counterexample:
  "POST stuckWorld demoEnv demoRequest =
     ((200, SummaryBody (twinSummary (Some ''not-processed'') 0)), stuckTrace) \<and>
   length (filter isPoll stuckTrace) = 12 \<and>
   set (filter isPoll stuckTrace) = {pollCall demoEnv ''dup'' (Inr pending)} \<and>
   checkStatus (Inr pending) = Inr False \<and>
   map file_r (results (twinSummary (Some ''not-processed'') 0)) = [''q.txt'', ''r.txt''] \<and>
   map openWebUIId (results (twinSummary (Some ''not-processed'') 0)) = [''dup'', ''dup''] \<and>
   map collectionStatus (results (twinSummary (Some ''not-processed'') 0)) =
     [Some ''not-processed'', None]"
proof -
  have "length (filter isPoll stuckTrace) = 12"
    by (simp add: twin_defs pollCall_def)
  moreover have "set (filter isPoll stuckTrace) = {pollCall demoEnv ''dup'' (Inr pending)}"
    by (simp add: twin_defs pollCall_def)
  moreover have "checkStatus (Inr pending) = Inr False"
    by (simp add: checkStatus_def isReady_def pending_def)
  ultimately show ?thesis
    by (simp add: stuck_run) (simp add: twinSummary_def twinResult_def)
qed

text \<open>
  Claim C4, amended. With a collection configured (the files are polled only then), in a
  run whose results have distinct ids: an uploaded file none of whose status polls reports
  \<^verbatim>\<open>completed\<close> with content that is not blank, and none of whose status requests is
  rejected with a value that the logger cannot write (after such a value the outer
  \<^verbatim>\<open>catch\<close> of the turn writes \<^verbatim>\<open>error\<close>, as in \<open>loop_run\<close>), ends with the collection status
  \<^verbatim>\<open>not-processed\<close>; no request to add it to the collection is made; and it is polled at
  least once and at most 6 times.
\<close>

theorem C4_never_ready_is_not_processed:
  assumes "POST w e req = ((code, SummaryBody r), tr)"
    and "truthy (KNOWLEDGE_COLLECTION_ID e)"
    and "distinct (map openWebUIId (results r))"
    and "x \<in> set (results r)"
    and "\<forall>a. pollCall e (openWebUIId x) a \<in> set tr \<longrightarrow> checkStatus a \<noteq> Inr True"
    and "\<forall>ex. pollCall e (openWebUIId x) (Inl ex) \<in> set tr \<longrightarrow> logError ex = None"
  shows "collectionStatus x = Some ''not-processed'' \<and>
         (\<forall>rq a. AddCall rq a \<in> set tr \<longrightarrow> add_file_id rq \<noteq> openWebUIId x) \<and>
         1 \<le> length (filter isPoll (itemCalls e (openWebUIId x) tr)) \<and>
         length (filter isPoll (itemCalls e (openWebUIId x) tr)) \<le> 6"
proof -
  from assms(1) obtain blobs where
    r: "r = summarize w blobs (uploadErrors (uploadStage w e blobs)) (phase2 w e (uploadStage w e blobs))"
    and tr: "tr = snd (phase2 w e (uploadStage w e blobs))"
    by (elim POST_summaryE)
  have res: "results r = fst (phase2 w e (uploadStage w e blobs))"
    by (simp add: r summarize_def split_beta)
  from assms(4) obtain k where k: "k < length (results r)" "x = results r ! k"
    by (auto simp: in_set_conv_nth)
  let ?calls = "itemCalls e (openWebUIId x) tr"
  have s: "settled e (openWebUIId x) ?calls (collectionStatus x)"
    using run_settled[OF assms(2), of w blobs k] assms(3) k by (simp add: res tr)
  have never: "\<forall>a. pollCall e (openWebUIId x) a \<in> set ?calls \<longrightarrow> checkStatus a \<noteq> Inr True"
    using assms(5) by (simp add: itemCalls_def)
  have loggable: "\<forall>ex. pollCall e (openWebUIId x) (Inl ex) \<in> set ?calls \<longrightarrow> logError ex = None"
    using assms(6) by (simp add: itemCalls_def)
  from settled_never_ready[OF s never loggable] have
    cs: "collectionStatus x = Some ''not-processed''"
    and na: "\<forall>ev\<in>set ?calls. \<not> isAdd ev"
    and len: "1 \<le> length ?calls" "length ?calls \<le> maxAttempts"
    by simp_all
  have "add_file_id rq \<noteq> openWebUIId x" if "AddCall rq a \<in> set tr" for rq a
  proof
    assume "add_file_id rq = openWebUIId x"
    with that have "AddCall rq a \<in> set ?calls" by (simp add: itemCalls_def)
    with na show False by force
  qed
  moreover have "filter isPoll ?calls = ?calls"
  proof -
    have "isPoll ev" if "ev \<in> set ?calls" for ev
    proof -
      from that have "concerns e (openWebUIId x) ev" by (simp add: itemCalls_def)
      then have "isPoll ev \<or> isAdd ev" by (cases ev) simp_all
      with na that show ?thesis by blast
    qed
    then show ?thesis by (simp add: filter_id_conv)
  qed
  ultimately show ?thesis using cs len by (simp add: maxAttempts_def)
qed

theorem C4_witness:
  "collectionStatus (demoResult ''b.pdf'' (Some ''not-processed'') 20 2) = Some ''not-processed'' \<and>
   length (filter isPoll (itemCalls demoEnv ''id-b.pdf'' demoTrace)) \<le> 6 \<and>
   1 \<le> length (filter isPoll (itemCalls demoEnv ''id-b.pdf'' demoTrace))"
proof -
  let ?x = "demoResult ''b.pdf'' (Some ''not-processed'') 20 2"
  have cid: "truthy (KNOWLEDGE_COLLECTION_ID demoEnv)" by (simp add: demoEnv_def)
  have d: "distinct (map openWebUIId (results demoSummary))"
    by (simp add: demoSummary_def demoResult_def)
  have x: "?x \<in> set (results demoSummary)" by (simp add: demoSummary_def)
  have never: "\<forall>a. pollCall demoEnv (openWebUIId ?x) a \<in> set demoTrace \<longrightarrow> checkStatus a \<noteq> Inr True"
    by (auto simp: demo_defs pollCall_def addCall_def checkStatus_def isReady_def)
  have loggable: "\<forall>ex. pollCall demoEnv (openWebUIId ?x) (Inl ex) \<in> set demoTrace \<longrightarrow> logError ex = None"
    by (auto simp: demo_defs pollCall_def addCall_def)
  from C4_never_ready_is_not_processed[OF demo_run cid d x never loggable]
  show ?thesis by (simp add: demoResult_def)
qed

subsection \<open>C5: a status request that fails\<close>

text \<open>
  Claim C5 as stated fails when two uploads are answered with the same id. In the run
  below both files are uploaded and get the id \<open>dup\<close>, and the status request of each is
  rejected at its first attempt. The run completes and each file is polled once, but the
  collection status \<^verbatim>\<open>not-processed\<close> is written twice to the entry of the first file: the
  entry of the second file, \<^verbatim>\<open>r.txt\<close>, whose status request is the last call of the run,
  ends with \<^verbatim>\<open>null\<close>.
\<close>

theorem C5_counterexample:
  "POST deafWorld demoEnv demoRequest =
     ((200, SummaryBody (twinSummary (Some ''not-processed'') 0)), deafTrace) \<and>
   filter isPoll deafTrace =
     [pollCall demoEnv ''dup'' (Inl (JsError ''Network Error'')),
      pollCall demoEnv ''dup'' (Inl (JsError ''Network Error''))] \<and>
   last deafTrace = pollCall demoEnv ''dup'' (Inl (JsError ''Network Error'')) \<and>
   map file_r (results (twinSummary (Some ''not-processed'') 0)) = [''q.txt'', ''r.txt''] \<and>
   map openWebUIId (results (twinSummary (Some ''not-processed'') 0)) = [''dup'', ''dup''] \<and>
   map collectionStatus (results (twinSummary (Some ''not-processed'') 0)) =
     [Some ''not-processed'', None]"
proof -
  have "filter isPoll deafTrace =
     [pollCall demoEnv ''dup'' (Inl (JsError ''Network Error'')),
      pollCall demoEnv ''dup'' (Inl (JsError ''Network Error''))]"
    by (simp add: twin_defs pollCall_def)
  moreover have "last deafTrace = pollCall demoEnv ''dup'' (Inl (JsError ''Network Error''))"
    by (simp add: deafTrace_def)
  ultimately show ?thesis
    by (simp add: deaf_run) (simp add: twinSummary_def twinResult_def)
qed

text \<open>
  Claim C5, amended. If a status request for the file with id \<open>i\<close> is rejected with an
  error that the logger can write (an \<^verbatim>\<open>Error\<close>, as \<^verbatim>\<open>axios\<close> rejects with), and the ids of
  the results reported are distinct, then the run completes with a summary, in which \<open>i\<close>
  is the id of a result; no later call of the run is about \<open>i\<close> (no further poll); no call
  of the run is a request to add \<open>i\<close> to the collection; the collection status of \<open>i\<close> is
  \<^verbatim>\<open>not-processed\<close>; and every file of the results is polled.
\<close>

theorem C5_failed_status_call_stops_polling:
  assumes "POST w e req = (resp, tr)"
    and "tr = pre @ pollCall e i (Inl ex) # post"
    and "logError ex = None"
    and "distinct (map openWebUIId (reported resp))"
  shows "\<exists>r. resp = (200, SummaryBody r) \<and>
           (\<exists>x\<in>set (results r). openWebUIId x = i) \<and>
           (\<forall>ev\<in>set post. \<not> concerns e i ev) \<and>
           (\<forall>rq a. AddCall rq a \<in> set tr \<longrightarrow> add_file_id rq \<noteq> i) \<and>
           (\<forall>x\<in>set (results r). openWebUIId x = i \<longrightarrow> collectionStatus x = Some ''not-processed'') \<and>
           (\<forall>y\<in>set (results r). \<exists>a. pollCall e (openWebUIId y) a \<in> set tr)"
proof -
  have in_tr: "pollCall e i (Inl ex) \<in> set tr" by (simp add: assms(2))
  from assms(1) obtain r where resp: "resp = (200, SummaryBody r)"
  proof (cases rule: POST_cases)
    case refused
    with in_tr show ?thesis by simp
  next
    case (listing_failed ex')
    with in_tr show ?thesis by (simp add: pollCall_def)
  next
    case (upload_raised blobs m st)
    from upload_raised_events[OF upload_raised(2)] in_tr upload_raised(4)
    have "isPhase1 (pollCall e i (Inl ex))" by blast
    then show ?thesis by (simp add: pollCall_def)
  next
    case (summary r)
    then show ?thesis by (rule that)
  qed
  with assms(1) have "POST w e req = ((200, SummaryBody r), tr)" by simp
  then obtain blobs where
    r: "r = summarize w blobs (uploadErrors (uploadStage w e blobs)) (phase2 w e (uploadStage w e blobs))"
    and tr: "tr = snd (phase2 w e (uploadStage w e blobs))"
    by (elim POST_summaryE)
  have res: "results r = fst (phase2 w e (uploadStage w e blobs))"
    by (simp add: r summarize_def split_beta)
  from assms(4) resp have d: "distinct (map openWebUIId (results r))" by simp
  from run_poll_of_uploaded[of e i "Inl ex" w blobs] in_tr
  have cid: "truthy (KNOWLEDGE_COLLECTION_ID e)" and mem: "\<exists>x\<in>set (results r). openWebUIId x = i"
    by (auto simp: tr res)
  have settled_at: "settled e (openWebUIId y) (itemCalls e (openWebUIId y) tr) (collectionStatus y)"
    if "y \<in> set (results r)" for y
  proof -
    from that obtain k where k: "k < length (results r)" "y = results r ! k"
      by (auto simp: in_set_conv_nth)
    with run_settled[OF cid, of w blobs k] d show ?thesis by (simp add: res tr)
  qed
  have polled: "\<forall>y\<in>set (results r). \<exists>a. pollCall e (openWebUIId y) a \<in> set tr"
  proof
    fix y assume "y \<in> set (results r)"
    from settled_polled[OF settled_at[OF this]]
    show "\<exists>a. pollCall e (openWebUIId y) a \<in> set tr" by (auto simp: itemCalls_def)
  qed
  have split: "itemCalls e i tr = itemCalls e i pre @ pollCall e i (Inl ex) # itemCalls e i post"
    by (simp add: assms(2) itemCalls_def)
  have outcome: "pollOutcome ex = ''not-processed''"
    by (simp add: pollOutcome_def assms(3))
  have failed: "itemCalls e i post = [] \<and> collectionStatus x = Some ''not-processed'' \<and>
      (\<forall>ev\<in>set (itemCalls e i tr). \<not> isAdd ev)"
    if "x \<in> set (results r)" "openWebUIId x = i" for x
    using settled_failed_poll[OF _ split, of "collectionStatus x" ex] settled_at[OF that(1)] that(2)
    by (simp add: outcome)
  from mem obtain x where x: "x \<in> set (results r)" "openWebUIId x = i" by blast
  from failed[OF x] have quiet: "\<forall>ev\<in>set post. \<not> concerns e i ev"
    and no_add: "\<forall>ev\<in>set (itemCalls e i tr). \<not> isAdd ev"
    by (simp_all add: itemCalls_def filter_empty_conv)
  have "add_file_id rq \<noteq> i" if "AddCall rq a \<in> set tr" for rq a
  proof
    assume "add_file_id rq = i"
    with that have "AddCall rq a \<in> set (itemCalls e i tr)" by (simp add: itemCalls_def)
    with no_add show False by force
  qed
  with quiet failed polled resp mem show ?thesis by blast
qed

theorem C5_witness:
  "filter (concerns demoEnv ''id-c.txt'') demoAfter = [] \<and>
   collectionStatus (demoResult ''c.txt'' (Some ''not-processed'') 30 3) = Some ''not-processed'' \<and>
   (\<exists>a. pollCall demoEnv ''id-e.html'' a \<in> set demoTrace)"
proof -
  have d: "distinct (map openWebUIId (reported (200, SummaryBody demoSummary)))"
    by (simp add: demoSummary_def demoResult_def)
  have l: "logError (JsError ''Network Error'') = None" by simp
  from C5_failed_status_call_stops_polling[OF demo_run demoTrace_def l d]
  have 1: "\<forall>ev\<in>set demoAfter. \<not> concerns demoEnv ''id-c.txt'' ev"
    and 2: "\<forall>x\<in>set (results demoSummary). openWebUIId x = ''id-c.txt'' \<longrightarrow> collectionStatus x = Some ''not-processed''"
    and 3: "\<forall>y\<in>set (results demoSummary). \<exists>a. pollCall demoEnv (openWebUIId y) a \<in> set demoTrace"
    by auto
  from 1 have "filter (concerns demoEnv ''id-c.txt'') demoAfter = []"
    by (simp add: filter_empty_conv)
  moreover have "demoResult ''c.txt'' (Some ''not-processed'') 30 3 \<in> set (results demoSummary)"
    "demoResult ''e.html'' (Some ''added'') 50 5 \<in> set (results demoSummary)"
    by (simp_all add: demoSummary_def)
  ultimately show ?thesis using 2 3 by (fastforce simp: demoResult_def)
qed

subsection \<open>C6: a failed request to add a file\<close>

text \<open>
  Claim C6 as stated fails when two uploads are answered with the same id. In the run
  below both files are uploaded and get the id \<open>dup\<close>, and both are processed; the request
  to add the first is rejected and the request to add the second is accepted. Both
  statuses are written to the entry of the first file, which ends with \<^verbatim>\<open>added\<close> although
  the request to add it failed; no entry ends with \<^verbatim>\<open>collection-failed\<close>; and two requests
  to add the id \<open>dup\<close> are made.
\<close>

theorem C6_counterexample:
  "POST retryWorld demoEnv demoRequest =
     ((200, SummaryBody (twinSummary (Some ''added'') 1)), retryTrace) \<and>
   filter isAdd retryTrace =
     [addCall demoEnv ''dup'' (Inl (JsError ''Request failed with status code 500'')),
      addCall demoEnv ''dup'' (Inr ())] \<and>
   map file_r (results (twinSummary (Some ''added'') 1)) = [''q.txt'', ''r.txt''] \<and>
   map openWebUIId (results (twinSummary (Some ''added'') 1)) = [''dup'', ''dup''] \<and>
   map collectionStatus (results (twinSummary (Some ''added'') 1)) = [Some ''added'', None]"
proof -
  have "filter isAdd retryTrace =
     [addCall demoEnv ''dup'' (Inl (JsError ''Request failed with status code 500'')),
      addCall demoEnv ''dup'' (Inr ())]"
    by (simp add: twin_defs pollCall_def addCall_def)
  then show ?thesis
    by (simp add: retry_run) (simp add: twinSummary_def twinResult_def)
qed

text \<open>
  Claim C6, amended. In a run whose results have distinct ids: when the request to add a
  file to the collection is rejected with an error that the logger can write (an
  \<^verbatim>\<open>Error\<close>, as \<^verbatim>\<open>axios\<close> rejects with; after any other value the outer \<^verbatim>\<open>catch\<close> of the turn
  writes \<^verbatim>\<open>error\<close>, as in \<open>loop_run\<close>), the entry of the file is the result pushed at its
  upload with the collection status \<^verbatim>\<open>collection-failed\<close> in place of \<^verbatim>\<open>null\<close> (so its
  status is still \<^verbatim>\<open>uploaded\<close> and its file, id, size and date are unchanged); that request
  is the only request to add the file; and the listing, fetch and upload calls of the
  whole run are those made by the upload loop: nothing is uploaded again.
\<close>

theorem C6_failed_association_keeps_the_upload:
  assumes "POST w e req = ((code, SummaryBody r), tr)"
    and "listBlobs w [] (BLOB_READ_WRITE_TOKEN e) = Inr blobs"
    and "distinct (map openWebUIId (results r))"
    and "k < length (results r)"
    and "addCall e (openWebUIId (results r ! k)) (Inl ex) \<in> set tr"
    and "logError ex = None"
  shows "results r ! k =
           (uploadResults (snd (uploadAll w e blobs (startState e blobs))) ! k)
             \<lparr>collectionStatus := Some ''collection-failed''\<rparr> \<and>
         status (results r ! k) = ''uploaded'' \<and>
         filter isAdd (itemCalls e (openWebUIId (results r ! k)) tr) =
           [addCall e (openWebUIId (results r ! k)) (Inl ex)] \<and>
         filter isPhase1 tr = events (snd (uploadAll w e blobs (startState e blobs)))"
proof -
  let ?st = "uploadStage w e blobs"
  let ?x = "results r ! k"
  from POST_summary_stage[OF assms(1,2)]
  have stage: "snd (uploadAll w e blobs (startState e blobs)) = ?st" by simp
  from assms(1) obtain blobs' where
    "listBlobs w [] (BLOB_READ_WRITE_TOKEN e) = Inr blobs'"
    "r = summarize w blobs' (uploadErrors (uploadStage w e blobs')) (phase2 w e (uploadStage w e blobs'))"
    "tr = snd (phase2 w e (uploadStage w e blobs'))"
    by (elim POST_summaryE)
  with assms(2) have r: "r = summarize w blobs (uploadErrors ?st) (phase2 w e ?st)"
    and tr: "tr = snd (phase2 w e ?st)"
    by simp_all
  have res: "results r = fst (phase2 w e ?st)"
    by (simp add: r summarize_def split_beta)
  have np: "\<not> isPhase1 (addCall e (openWebUIId ?x) (Inl ex))" by (simp add: addCall_def)
  from phase2_skipped[OF assms(5)[unfolded tr] np uploadStage_events]
  have cid: "truthy (KNOWLEDGE_COLLECTION_ID e)" by simp
  have s: "settled e (openWebUIId ?x) (itemCalls e (openWebUIId ?x) tr) (collectionStatus ?x)"
    using run_settled[OF cid, of w blobs k] assms(3,4) by (simp add: res tr)
  have "addCall e (openWebUIId ?x) (Inl ex) \<in> set (itemCalls e (openWebUIId ?x) tr)"
    using assms(5) by (simp add: itemCalls_def)
  from settled_add_failed[OF s this] have
    cs: "collectionStatus ?x = Some ''collection-failed''"
    and one: "filter isAdd (itemCalls e (openWebUIId ?x) tr) = [addCall e (openWebUIId ?x) (Inl ex)]"
    by (simp_all add: addOutcome_def assms(6))
  have "map eraseCS (results r) ! k = uploadResults ?st ! k"
    by (simp only: res final_results_frame)
  then have "uploadResults ?st ! k = eraseCS ?x" using assms(4) by simp
  then have "(uploadResults ?st ! k)\<lparr>collectionStatus := Some ''collection-failed''\<rparr> =
             (eraseCS ?x)\<lparr>collectionStatus := Some ''collection-failed''\<rparr>"
    by (simp only:)
  also have "\<dots> = ?x\<lparr>collectionStatus := collectionStatus ?x\<rparr>"
    by (simp add: eraseCS_def cs)
  also have "\<dots> = ?x" by simp
  finally have frame: "?x = (uploadResults ?st ! k)\<lparr>collectionStatus := Some ''collection-failed''\<rparr>"
    by (rule sym)
  have up: "status ?x = ''uploaded''"
    using final_results_fields[of ?x w e blobs] assms(4) by (simp add: res)
  from frame up one run_phase1_calls[of w e blobs] show ?thesis
    unfolding stage by (simp add: tr)
qed

theorem C6_witness:
  "results demoSummary ! 2 = demoResult ''d.json'' (Some ''collection-failed'') 40 4 \<and>
   demoResult ''d.json'' (Some ''collection-failed'') 40 4 =
     (demoResult ''d.json'' None 40 4)\<lparr>collectionStatus := Some ''collection-failed''\<rparr> \<and>
   status (results demoSummary ! 2) = ''uploaded'' \<and>
   filter isAdd (itemCalls demoEnv ''id-d.json'' demoTrace) =
     [addCall demoEnv ''id-d.json'' (Inl (JsError ''Request failed with status code 500''))] \<and>
   filter isPhase1 demoTrace = demoPhase1"
proof -
  have d: "distinct (map openWebUIId (results demoSummary))"
    by (simp add: demoSummary_def demoResult_def)
  have k: "2 < length (results demoSummary)" by (simp add: demoSummary_def)
  have i: "openWebUIId (results demoSummary ! 2) = ''id-d.json''"
    by (simp add: demoSummary_def demoResult_def)
  have a: "addCall demoEnv (openWebUIId (results demoSummary ! 2))
             (Inl (JsError ''Request failed with status code 500'')) \<in> set demoTrace"
    by (simp add: i) (simp add: demoTrace_def demoAfter_def)
  have l: "logError (JsError ''Request failed with status code 500'') = None" by simp
  have st: "uploadResults demoStage ! 2 = demoResult ''d.json'' None 40 4"
    "events demoStage = demoPhase1"
    by (simp_all add: demoStage_def plainSummary_def)
  from C6_failed_association_keeps_the_upload[OF demo_run demo_listing d k a l]
  show ?thesis unfolding i demo_stage snd_conv st
    by (simp add: demoSummary_def demoResult_def)
qed

subsection \<open>C7: no collection configured\<close>

text \<open>
  Claim C7. If \<^verbatim>\<open>KNOWLEDGE_COLLECTION_ID\<close> is not set (or empty), then in a run that
  completes with a summary every result has the collection status \<^verbatim>\<open>null\<close>, the run makes
  no call but the listing, the fetches and the uploads (no status poll, no request to add,
  no wait), and \<^verbatim>\<open>addedToCollection\<close> is \<open>0\<close>.
\<close>

theorem C7_no_collection_configured:
  assumes "POST w e req = ((code, SummaryBody r), tr)"
    and "\<not> truthy (KNOWLEDGE_COLLECTION_ID e)"
  shows "(\<forall>x\<in>set (results r). collectionStatus x = None) \<and>
         (\<forall>ev\<in>set tr. isPhase1 ev \<and> \<not> isPoll ev \<and> \<not> isAdd ev) \<and>
         addedToCollection r = 0"
proof -
  from assms(1) obtain blobs where
    r: "r = summarize w blobs (uploadErrors (uploadStage w e blobs)) (phase2 w e (uploadStage w e blobs))"
    and tr: "tr = snd (phase2 w e (uploadStage w e blobs))"
    by (elim POST_summaryE)
  let ?st = "uploadStage w e blobs"
  from assms(2) have fin: "phase2 w e ?st =
      (map (\<lambda>result. result\<lparr>collectionStatus := None\<rparr>) (uploadResults ?st), events ?st)"
    by (simp add: phase2_def)
  have res: "results r = map (\<lambda>result. result\<lparr>collectionStatus := None\<rparr>) (uploadResults ?st)"
    by (simp add: r summarize_def fin)
  have 1: "\<forall>x\<in>set (results r). collectionStatus x = None" by (auto simp: res)
  have "isPhase1 ev \<and> \<not> isPoll ev \<and> \<not> isAdd ev" if "ev \<in> set tr" for ev
  proof -
    from that have "isPhase1 ev" using uploadStage_events[of w e blobs] by (simp add: tr fin)
    then show ?thesis by (cases ev) simp_all
  qed
  moreover have "addedToCollection r = 0"
    by (simp add: r summarize_def fin filter_empty_conv)
  ultimately show ?thesis using 1 by blast
qed

theorem C7_witness:
  "map collectionStatus (results plainSummary) = [None, None, None, None] \<and>
   addedToCollection plainSummary = 0 \<and>
   filter isPoll demoPhase1 = [] \<and> filter isAdd demoPhase1 = []"
proof -
  have "\<not> truthy (KNOWLEDGE_COLLECTION_ID plainEnv)" by (simp add: plainEnv_def)
  from C7_no_collection_configured[OF plain_run this]
  show ?thesis by (simp add: plainSummary_def demoResult_def filter_empty_conv)
qed

subsection \<open>C8: classification\<close>

text \<open>
  Claim C8 holds for every name with a dot (\<open>classifyPath_dotted\<close> with \<open>classify_text\<close>,
  \<open>classify_binary\<close> and \<open>classify_default\<close>); it fails for a name without a dot that is
  itself a word of the table. \<^verbatim>\<open>split(".").pop()\<close> gives the whole name then: the blob
  named \<^verbatim>\<open>md\<close> has no extension, and is classified as \<^verbatim>\<open>text/markdown\<close> and read as text,
  not as \<^verbatim>\<open>application/octet-stream\<close> and bytes.
\<close>

theorem C8_name_without_dot:
  "CHR ''.'' \<notin> set ''md'' \<and> fileExtension ''md'' = Some ''md'' \<and>
   classifyPath ''md'' = (''text/markdown'', TextTransfer)"
  by (simp add: classifyPath_def classify_def fileExtension_def toLowerCase_def)

subsection \<open>C9: the responses\<close>

text \<open>
  Claim C9 fails on a missing environment variable: for an authorised request with
  \<^verbatim>\<open>OPEN_WEB_UI_API_KEY\<close> unset, the response is status 500 with the body
  \<^verbatim>\<open>{ error: "Missing required environment variables" }\<close> alone, without the timestamp
  (and the details) that the response of a failed listing carries. For the rest of the
  claim, \<open>POST_shapes\<close> lists the responses, \<open>POST_missing_env\<close> gives this one for every
  authorised request with a required variable missing, and \<open>POST_failure_cases\<close> says
  when the failure with details and timestamp is sent.
\<close>

theorem C9_missing_key_response:
  "POST demoWorld brokenEnv demoRequest =
     ((500, ErrorBody ''Missing required environment variables''), [])"
  by (simp add: POST_def brokenEnv_def demoEnv_def demoRequest_def missingEnvVars_def
      List.map_filter_def)

theorem C9_missing_key_witness:
  "snd (fst (POST demoWorld brokenEnv demoRequest)) =
     ErrorBody ''Missing required environment variables'' \<and>
   (\<forall>err details ts. snd (fst (POST demoWorld brokenEnv demoRequest)) \<noteq> FailureBody err details ts)"
  using C9_missing_key_response by simp

subsection \<open>C10: the values in the results\<close>

text \<open>
  Claim C10. In a run that completes with a summary, every result has the status
  \<^verbatim>\<open>uploaded\<close>, and its collection status is \<^verbatim>\<open>null\<close>, \<^verbatim>\<open>added\<close>, \<^verbatim>\<open>not-processed\<close>,
  \<^verbatim>\<open>collection-failed\<close> or \<^verbatim>\<open>error\<close>; and \<^verbatim>\<open>error\<close>, which the outer \<^verbatim>\<open>catch\<close> of a turn of
  phase 2 writes, is the collection status of a result of some run.
\<close>

theorem C10_result_entries:
  "(POST w e req = ((code, SummaryBody r), tr) \<longrightarrow>
      (\<forall>x\<in>set (results r). status x = ''uploaded'' \<and>
         collectionStatus x \<in> {None, Some ''added'', Some ''not-processed'',
                                Some ''collection-failed'', Some ''error''})) \<and>
   (\<exists>w' e' req' r' tr'. POST w' e' req' = ((200, SummaryBody r'), tr') \<and>
      (\<exists>x\<in>set (results r'). collectionStatus x = Some ''error''))"
proof (intro conjI impI)
  assume run: "POST w e req = ((code, SummaryBody r), tr)"
  then obtain blobs where
    r: "r = summarize w blobs (uploadErrors (uploadStage w e blobs)) (phase2 w e (uploadStage w e blobs))"
    by (elim POST_summaryE)
  have res: "results r = fst (phase2 w e (uploadStage w e blobs))"
    by (simp add: r summarize_def split_beta)
  show "\<forall>x\<in>set (results r). status x = ''uploaded'' \<and>
           collectionStatus x \<in> {None, Some ''added'', Some ''not-processed'',
                                  Some ''collection-failed'', Some ''error''}"
  proof
    fix x assume x: "x \<in> set (results r)"
    then have "status x = ''uploaded''" using final_results_fields[of x w e blobs] by (simp add: res)
    moreover from x phase2_statuses[of w e blobs] have
      "collectionStatus x \<in> {None, Some ''not-processed'', Some ''added'', Some ''collection-failed'',
                             Some ''error''}"
      by (simp only: res)
    ultimately show "status x = ''uploaded'' \<and>
           collectionStatus x \<in> {None, Some ''added'', Some ''not-processed'',
                                  Some ''collection-failed'', Some ''error''}"
      by auto
  qed
next
  have "demoResult ''x.txt'' (Some ''error'') 1 1 \<in> set (results loopSummary)"
    by (simp add: loopSummary_def)
  moreover have "collectionStatus (demoResult ''x.txt'' (Some ''error'') 1 1) = Some ''error''"
    by (simp add: demoResult_def)
  ultimately show "\<exists>w' e' req' r' tr'. POST w' e' req' = ((200, SummaryBody r'), tr') \<and>
      (\<exists>x\<in>set (results r'). collectionStatus x = Some ''error'')"
    using loop_run by blast
qed

theorem C10_witness:
  "map status (results loopSummary) = [''uploaded'', ''uploaded'', ''uploaded''] \<and>
   map collectionStatus (results loopSummary) = [Some ''error'', Some ''error'', Some ''added'']"
proof -
  from C10_result_entries[of loopWorld demoEnv demoRequest 200 loopSummary loopTrace] loop_run
  have "\<forall>x\<in>set (results loopSummary). status x = ''uploaded''" by blast
  then show ?thesis by (simp add: loopSummary_def demoResult_def)
qed

end
